theory Spec2Isabelle
  imports Main "HOL-Library.Word"
begin

unbundle bit_operations_syntax

section \<open>Data model\<close>

type_synonym byte = "8 word"
type_synonym bytes = "byte list"

text \<open>The constants of \<^verbatim>\<open>srtp.go\<close>. In Go they are untyped constants; the lengths
  and bounds are kept as natural numbers and compared with the unsigned value of a
  machine integer.\<close>

definition labelEncryption :: byte where
  "labelEncryption = 0x00"

definition labelSalt :: byte where
  "labelSalt = 0x02"

definition keyLen :: nat where
  "keyLen = 16"

definition saltLen :: nat where
  "saltLen = 14"

definition maxROCDisorder :: nat where
  "maxROCDisorder = 100"

definition maxSequenceNumber :: nat where
  "maxSequenceNumber = 65535"

text \<open>Every way a call can fail: the two \<^verbatim>\<open>errors.Errorf\<close> returns of
  \<^verbatim>\<open>CreateContext\<close>, the \<^verbatim>\<open>aes.KeySizeError\<close> of \<^verbatim>\<open>aes.NewCipher\<close>, and the
  run-time panics of Go (an index or a slice bound out of range, a method call on a nil
  interface, and the two panics the cipher packages raise themselves).\<close>

datatype panic =
    IndexOutOfRange
  | SliceBoundsOutOfRange
  | NilDereference
  | InputNotFullBlock
  | IVLengthMismatch

datatype error =
    MasterKeyLenError
  | MasterSaltLenError
  | KeySizeError nat
  | Panic panic

text \<open>An initialised \<^verbatim>\<open>cipher.Block\<close> of \<^verbatim>\<open>crypto/aes\<close> is its expanded key: the key
  schedule, a list of four-byte words.\<close>

type_synonym cipherBlock = "bytes list"

text \<open>The struct \<^verbatim>\<open>Context\<close>. Its byte slices are private to the package, are read
  only by the context's own methods and are held here by value; \<^verbatim>\<open>block\<close> is an
  interface value, \<open>None\<close> when nil.\<close>

record Context =
  ssrc :: "32 word"
  rolloverCounter :: "32 word"
  rolloverHasProcessed :: bool
  lastSequenceNumber :: "16 word"
  masterKey :: bytes
  masterSalt :: bytes
  sessionKey :: bytes
  sessionSalt :: bytes
  block :: "cipherBlock option"

text \<open>Go's zero value of the struct, \<^verbatim>\<open>Context{}\<close>.\<close>

definition zeroContext :: Context where
  "zeroContext =
     \<lparr>ssrc = 0, rolloverCounter = 0, rolloverHasProcessed = False, lastSequenceNumber = 0,
      masterKey = [], masterSalt = [], sessionKey = [], sessionSalt = [], block = None\<rparr>"

section \<open>The block cipher of \<^verbatim>\<open>crypto/aes\<close>\<close>

text \<open>\<^verbatim>\<open>crypto/aes\<close> is Go's standard library, not part of the repository. It
  implements the cipher of FIPS 197, which is written out here on bytes: the S-box
  \<^verbatim>\<open>sbox0\<close> and the round constants \<^verbatim>\<open>powx\<close> are the tables of \<^verbatim>\<open>crypto/aes/const.go\<close>,
  the key expansion follows \<^verbatim>\<open>expandKeyGo\<close>, and a block is encrypted by the rounds of
  FIPS 197, section 5.1 (SubBytes, ShiftRows, MixColumns, AddRoundKey).\<close>

definition sbox0 :: bytes where
  "sbox0 =
     [
      0x63, 0x7c, 0x77, 0x7b, 0xf2, 0x6b, 0x6f, 0xc5, 0x30, 0x01, 0x67, 0x2b, 0xfe, 0xd7, 0xab, 0x76,
      0xca, 0x82, 0xc9, 0x7d, 0xfa, 0x59, 0x47, 0xf0, 0xad, 0xd4, 0xa2, 0xaf, 0x9c, 0xa4, 0x72, 0xc0,
      0xb7, 0xfd, 0x93, 0x26, 0x36, 0x3f, 0xf7, 0xcc, 0x34, 0xa5, 0xe5, 0xf1, 0x71, 0xd8, 0x31, 0x15,
      0x04, 0xc7, 0x23, 0xc3, 0x18, 0x96, 0x05, 0x9a, 0x07, 0x12, 0x80, 0xe2, 0xeb, 0x27, 0xb2, 0x75,
      0x09, 0x83, 0x2c, 0x1a, 0x1b, 0x6e, 0x5a, 0xa0, 0x52, 0x3b, 0xd6, 0xb3, 0x29, 0xe3, 0x2f, 0x84,
      0x53, 0xd1, 0x00, 0xed, 0x20, 0xfc, 0xb1, 0x5b, 0x6a, 0xcb, 0xbe, 0x39, 0x4a, 0x4c, 0x58, 0xcf,
      0xd0, 0xef, 0xaa, 0xfb, 0x43, 0x4d, 0x33, 0x85, 0x45, 0xf9, 0x02, 0x7f, 0x50, 0x3c, 0x9f, 0xa8,
      0x51, 0xa3, 0x40, 0x8f, 0x92, 0x9d, 0x38, 0xf5, 0xbc, 0xb6, 0xda, 0x21, 0x10, 0xff, 0xf3, 0xd2,
      0xcd, 0x0c, 0x13, 0xec, 0x5f, 0x97, 0x44, 0x17, 0xc4, 0xa7, 0x7e, 0x3d, 0x64, 0x5d, 0x19, 0x73,
      0x60, 0x81, 0x4f, 0xdc, 0x22, 0x2a, 0x90, 0x88, 0x46, 0xee, 0xb8, 0x14, 0xde, 0x5e, 0x0b, 0xdb,
      0xe0, 0x32, 0x3a, 0x0a, 0x49, 0x06, 0x24, 0x5c, 0xc2, 0xd3, 0xac, 0x62, 0x91, 0x95, 0xe4, 0x79,
      0xe7, 0xc8, 0x37, 0x6d, 0x8d, 0xd5, 0x4e, 0xa9, 0x6c, 0x56, 0xf4, 0xea, 0x65, 0x7a, 0xae, 0x08,
      0xba, 0x78, 0x25, 0x2e, 0x1c, 0xa6, 0xb4, 0xc6, 0xe8, 0xdd, 0x74, 0x1f, 0x4b, 0xbd, 0x8b, 0x8a,
      0x70, 0x3e, 0xb5, 0x66, 0x48, 0x03, 0xf6, 0x0e, 0x61, 0x35, 0x57, 0xb9, 0x86, 0xc1, 0x1d, 0x9e,
      0xe1, 0xf8, 0x98, 0x11, 0x69, 0xd9, 0x8e, 0x94, 0x9b, 0x1e, 0x87, 0xe9, 0xce, 0x55, 0x28, 0xdf,
      0x8c, 0xa1, 0x89, 0x0d, 0xbf, 0xe6, 0x42, 0x68, 0x41, 0x99, 0x2d, 0x0f, 0xb0, 0x54, 0xbb, 0x16]"

definition powx :: bytes where
  "powx = [0x01, 0x02, 0x04, 0x08, 0x10, 0x20, 0x40, 0x80,
           0x1b, 0x36, 0x6c, 0xd8, 0xab, 0x4d, 0x9a, 0x2f]"

definition subByte :: "byte \<Rightarrow> byte" where
  "subByte b = sbox0 ! unat b"

definition xorBytes :: "bytes \<Rightarrow> bytes \<Rightarrow> bytes" where
  "xorBytes a b = map2 (XOR) a b"

definition subw :: "bytes \<Rightarrow> bytes" where
  "subw w = map subByte w"

definition rotw :: "bytes \<Rightarrow> bytes" where
  "rotw w = [w ! 1, w ! 2, w ! 3, w ! 0]"

text \<open>One step of the key expansion: the word \<^verbatim>\<open>enc[i]\<close> from \<^verbatim>\<open>enc[i-1]\<close> and
  \<^verbatim>\<open>enc[i-nk]\<close>.\<close>

definition expandStep :: "nat \<Rightarrow> nat \<Rightarrow> bytes list \<Rightarrow> bytes" where
  "expandStep nk i enc =
     xorBytes (enc ! (i - nk))
       (if i mod nk = 0
        then xorBytes (subw (rotw (enc ! (i - 1)))) [powx ! (i div nk - 1), 0, 0, 0]
        else if nk > 6 \<and> i mod nk = 4 then subw (enc ! (i - 1))
        else enc ! (i - 1))"

fun expandLoop :: "nat \<Rightarrow> nat \<Rightarrow> nat \<Rightarrow> bytes list \<Rightarrow> bytes list" where
  "expandLoop nk i 0 enc = enc"
| "expandLoop nk i (Suc n) enc = expandLoop nk (Suc i) n (enc @ [expandStep nk i enc])"

text \<open>A key of \<open>4 * nk\<close> bytes expands to \<open>length key + 28\<close> words.\<close>

definition expandKeyGo :: "bytes \<Rightarrow> cipherBlock" where
  "expandKeyGo key =
     (let nk = length key div 4
      in expandLoop nk nk (length key + 28 - nk)
           (map (\<lambda>i. take 4 (drop (4 * i) key)) [0..<nk]))"

text \<open>\<^verbatim>\<open>aes.NewCipher\<close>: a key of 16, 24 or 32 bytes, or a \<^verbatim>\<open>KeySizeError\<close>.\<close>

definition NewCipher :: "bytes \<Rightarrow> error + cipherBlock" where
  "NewCipher key =
     (if length key = 16 \<or> length key = 24 \<or> length key = 32
      then Inr (expandKeyGo key)
      else Inl (KeySizeError (length key)))"

definition roundKey :: "cipherBlock \<Rightarrow> nat \<Rightarrow> bytes" where
  "roundKey xk r = concat (take 4 (drop (4 * r) xk))"

definition addRoundKey :: "cipherBlock \<Rightarrow> nat \<Rightarrow> bytes \<Rightarrow> bytes" where
  "addRoundKey xk r s = xorBytes s (roundKey xk r)"

definition subBytes :: "bytes \<Rightarrow> bytes" where
  "subBytes s = map subByte s"

text \<open>The state is kept in the order of the input bytes (column by column), so row
  \<open>r\<close> of column \<open>c\<close> is byte \<open>r + 4 * c\<close>.\<close>

definition shiftRows :: "bytes \<Rightarrow> bytes" where
  "shiftRows s = map (\<lambda>i. s ! i) [0, 5, 10, 15, 4, 9, 14, 3, 8, 13, 2, 7, 12, 1, 6, 11]"

definition xtime :: "byte \<Rightarrow> byte" where
  "xtime b = (if bit b 7 then push_bit 1 b XOR 0x1b else push_bit 1 b)"

definition mixColumn :: "bytes \<Rightarrow> bytes" where
  "mixColumn a =
     [xtime (a ! 0) XOR (xtime (a ! 1) XOR a ! 1) XOR a ! 2 XOR a ! 3,
      a ! 0 XOR xtime (a ! 1) XOR (xtime (a ! 2) XOR a ! 2) XOR a ! 3,
      a ! 0 XOR a ! 1 XOR xtime (a ! 2) XOR (xtime (a ! 3) XOR a ! 3),
      (xtime (a ! 0) XOR a ! 0) XOR a ! 1 XOR a ! 2 XOR xtime (a ! 3)]"

definition mixColumns :: "bytes \<Rightarrow> bytes" where
  "mixColumns s = concat (map (\<lambda>c. mixColumn (take 4 (drop (4 * c) s))) [0, 1, 2, 3])"

fun rounds :: "cipherBlock \<Rightarrow> nat \<Rightarrow> nat \<Rightarrow> bytes \<Rightarrow> bytes" where
  "rounds xk r 0 s = s"
| "rounds xk r (Suc n) s =
     rounds xk (Suc r) n (addRoundKey xk r (mixColumns (shiftRows (subBytes s))))"

text \<open>The cipher on one block: the first sixteen bytes of \<open>src\<close>, with
  \<open>length xk div 4 - 1\<close> rounds (10, 12 or 14).\<close>

definition encryptBlockGo :: "cipherBlock \<Rightarrow> bytes \<Rightarrow> bytes" where
  "encryptBlockGo xk src =
     addRoundKey xk (length xk div 4 - 1)
       (shiftRows (subBytes
          (rounds xk 1 (length xk div 4 - 2) (addRoundKey xk 0 (take 16 src)))))"

text \<open>\<^verbatim>\<open>Block.Encrypt(dst, src)\<close>: it panics unless both slices hold a full block, and
  writes the encrypted block over the first sixteen bytes of \<open>dst\<close>. The result is the
  new content of \<open>dst\<close>.\<close>

definition Encrypt :: "cipherBlock \<Rightarrow> bytes \<Rightarrow> bytes \<Rightarrow> error + bytes" where
  "Encrypt xk dst src =
     (if length src < 16 \<or> length dst < 16 then Inl (Panic InputNotFullBlock)
      else Inr (encryptBlockGo xk src @ drop 16 dst))"

section \<open>Session key and session salt\<close>

text \<open>The loop of \<^verbatim>\<open>generateSessionKey\<close> and \<^verbatim>\<open>generateSessionSalt\<close>,
  \<^verbatim>\<open>for i, j := len(label)-1, len(key)-1; i >= 0; i, j = i-1, j-1\<close>: the first
  argument counts the iterations left (\<open>i + 1\<close>), \<open>j\<close> is Go's signed index, and an
  index outside the slice panics.\<close>

fun xorLabelLoop :: "bytes \<Rightarrow> nat \<Rightarrow> int \<Rightarrow> bytes \<Rightarrow> error + bytes" where
  "xorLabelLoop labelAndIndexOverKdr 0 j key = Inr key"
| "xorLabelLoop labelAndIndexOverKdr (Suc i) j key =
     (if 0 \<le> j \<and> nat j < length key
      then xorLabelLoop labelAndIndexOverKdr i (j - 1)
             (key[nat j := key ! nat j XOR labelAndIndexOverKdr ! i])
      else Inl (Panic IndexOutOfRange))"

text \<open>\<^verbatim>\<open>generateSessionKey\<close>: copy the master salt, xor the label sequence into its
  tail, append two zero bytes, and encrypt in place under the master key.\<close>

definition generateSessionKey :: "Context \<Rightarrow> error + bytes" where
  "generateSessionKey c =
     (let labelAndIndexOverKdr = [labelEncryption, 0x00, 0x00, 0x00, 0x00, 0x00, 0x00] in
      case xorLabelLoop labelAndIndexOverKdr (length labelAndIndexOverKdr)
             (int (length (masterSalt c)) - 1) (masterSalt c) of
        Inl e \<Rightarrow> Inl e
      | Inr key \<Rightarrow>
          (let key = key @ [0x00, 0x00] in
           case NewCipher (masterKey c) of
             Inl e \<Rightarrow> Inl e
           | Inr blk \<Rightarrow> Encrypt blk key key))"

text \<open>\<^verbatim>\<open>generateSessionSalt\<close>: the same steps with the salt label. The final
  \<^verbatim>\<open>sessionSalt[0:saltLen]\<close> is in bounds whenever \<^verbatim>\<open>Encrypt\<close> returned, since the
  slice then holds at least sixteen bytes.\<close>

definition generateSessionSalt :: "Context \<Rightarrow> error + bytes" where
  "generateSessionSalt c =
     (let labelAndIndexOverKdr = [labelSalt, 0x00, 0x00, 0x00, 0x00, 0x00, 0x00] in
      case xorLabelLoop labelAndIndexOverKdr (length labelAndIndexOverKdr)
             (int (length (masterSalt c)) - 1) (masterSalt c) of
        Inl e \<Rightarrow> Inl e
      | Inr salt \<Rightarrow>
          (let salt = salt @ [0x00, 0x00] in
           case NewCipher (masterKey c) of
             Inl e \<Rightarrow> Inl e
           | Inr blk \<Rightarrow>
               (case Encrypt blk salt salt of
                  Inl e \<Rightarrow> Inl e
                | Inr salt \<Rightarrow> Inr (take saltLen salt))))"

text \<open>\<^verbatim>\<open>CreateContext\<close>. The named result \<^verbatim>\<open>c\<close> is still nil at the two length checks,
  so every error return carries no context. The \<^verbatim>\<open>profile\<close> argument is not used.\<close>

definition CreateContext :: "bytes \<Rightarrow> bytes \<Rightarrow> string \<Rightarrow> error + Context" where
  "CreateContext mKey mSalt profile =
     (if length mKey \<noteq> keyLen then Inl MasterKeyLenError
      else if length mSalt \<noteq> saltLen then Inl MasterSaltLenError
      else
        (let c = zeroContext\<lparr>masterKey := mKey, masterSalt := mSalt\<rparr> in
         case generateSessionKey c of
           Inl e \<Rightarrow> Inl e
         | Inr sk \<Rightarrow>
             (let c = c\<lparr>sessionKey := sk\<rparr> in
              case generateSessionSalt c of
                Inl e \<Rightarrow> Inl e
              | Inr ss \<Rightarrow>
                  (let c = c\<lparr>sessionSalt := ss\<rparr> in
                   case NewCipher (sessionKey c) of
                     Inl e \<Rightarrow> Inl e
                   | Inr blk \<Rightarrow> Inr (c\<lparr>block := Some blk\<rparr>)))))"

section \<open>Counter block\<close>

text \<open>\<^verbatim>\<open>binary.BigEndian.PutUint32(b[off:], v)\<close>. The three calls of the source write
  at offsets 4, 8 and 12 of a sixteen-byte slice, so the bounds check of \<^verbatim>\<open>PutUint32\<close>
  never fails there.\<close>

definition PutUint32 :: "bytes \<Rightarrow> nat \<Rightarrow> 32 word \<Rightarrow> bytes" where
  "PutUint32 b off v =
     b[off := ucast (drop_bit 24 v), off + 1 := ucast (drop_bit 16 v),
       off + 2 := ucast (drop_bit 8 v), off + 3 := ucast v]"

text \<open>The loop \<^verbatim>\<open>for i := range c.sessionSalt { counter[i] = counter[i] ^ c.sessionSalt[i] }\<close>,
  from index \<open>i\<close> on: an index past the counter panics.\<close>

fun xorSaltFrom :: "nat \<Rightarrow> bytes \<Rightarrow> bytes \<Rightarrow> error + bytes" where
  "xorSaltFrom i [] counter = Inr counter"
| "xorSaltFrom i (s # salt) counter =
     (if i < length counter
      then xorSaltFrom (Suc i) salt (counter[i := counter ! i XOR s])
      else Inl (Panic IndexOutOfRange))"

definition generateCounter :: "Context \<Rightarrow> 16 word \<Rightarrow> error + bytes" where
  "generateCounter c sequenceNumber =
     (let counter = replicate 16 0;
          counter = PutUint32 counter 4 (ssrc c);
          counter = PutUint32 counter 8 (rolloverCounter c);
          counter = PutUint32 counter 12 (push_bit 16 (ucast sequenceNumber))
      in xorSaltFrom 0 (sessionSalt c) counter)"

section \<open>Rollover counter tracker\<close>

text \<open>\<^verbatim>\<open>updateRolloverCount\<close>: the if/else-if chain of the source, in its order; the
  assignment to \<^verbatim>\<open>lastSequenceNumber\<close> follows the chain on every path. The counter is
  a \<^verbatim>\<open>uint32\<close>, so \<open>+ 1\<close> and \<open>- 1\<close> wrap around.\<close>

definition updateRolloverCount :: "Context \<Rightarrow> 16 word \<Rightarrow> Context" where
  "updateRolloverCount c sequenceNumber =
     (let c' =
        (if \<not> rolloverHasProcessed c then c\<lparr>rolloverHasProcessed := True\<rparr>
         else if sequenceNumber = 0 then
           (if unat (lastSequenceNumber c) > maxROCDisorder
            then c\<lparr>rolloverCounter := rolloverCounter c + 1\<rparr> else c)
         else if unat (lastSequenceNumber c) < maxROCDisorder
                 \<and> unat sequenceNumber > maxSequenceNumber - maxROCDisorder
           then c\<lparr>rolloverCounter := rolloverCounter c - 1\<rparr>
         else if unat sequenceNumber < maxROCDisorder
                 \<and> unat (lastSequenceNumber c) > maxSequenceNumber - maxROCDisorder
           then c\<lparr>rolloverCounter := rolloverCounter c + 1\<rparr>
         else c)
      in c'\<lparr>lastSequenceNumber := sequenceNumber\<rparr>)"

text \<open>Feeding a list of sequence numbers to the tracker, one call each, in order; and
  the value of the counter after each of those calls.\<close>

fun feedSequence :: "Context \<Rightarrow> 16 word list \<Rightarrow> Context" where
  "feedSequence c [] = c"
| "feedSequence c (s # ss) = feedSequence (updateRolloverCount c s) ss"

fun rolloverTrace :: "Context \<Rightarrow> 16 word list \<Rightarrow> 32 word list" where
  "rolloverTrace c [] = []"
| "rolloverTrace c (s # ss) =
     rolloverCounter (updateRolloverCount c s) # rolloverTrace (updateRolloverCount c s) ss"

section \<open>Byte slices of the packet\<close>

text \<open>The payload and the raw buffer of an \<^verbatim>\<open>rtp.Packet\<close> are slices that may share
  their backing array (the parser sets \<^verbatim>\<open>Payload = Raw[PayloadOffset:]\<close>), and
  \<^verbatim>\<open>DecryptPacket\<close> writes through both. So the arrays live in a store, a list of
  arrays addressed by position, and a slice is a window on one of them: the array, the
  position of its first element there, its length and its capacity.\<close>

type_synonym heap = "bytes list"

record slice =
  arr :: nat
  start :: nat
  len :: nat
  cap :: nat

text \<open>The invariant of Go's run time: a slice lies within its array.\<close>

definition sliceOK :: "heap \<Rightarrow> slice \<Rightarrow> bool" where
  "sliceOK h s = (arr s < length h \<and> len s \<le> cap s \<and> start s + cap s \<le> length (h ! arr s))"

definition sliceRead :: "heap \<Rightarrow> slice \<Rightarrow> bytes" where
  "sliceRead h s = take (len s) (drop (start s) (h ! arr s))"

text \<open>Overwriting the elements of array \<open>a\<close> from position \<open>i\<close> on with \<open>xs\<close>.\<close>

definition arrayWrite :: "heap \<Rightarrow> nat \<Rightarrow> nat \<Rightarrow> bytes \<Rightarrow> heap" where
  "arrayWrite h a i xs = h[a := take i (h ! a) @ xs @ drop (i + length xs) (h ! a)]"

text \<open>The slice expression \<^verbatim>\<open>s[0:n]\<close> (also written \<^verbatim>\<open>s[:n]\<close>) for a signed \<open>n\<close>: it
  panics unless \<open>0 \<le> n \<le> cap(s)\<close>.\<close>

definition sliceTo :: "slice \<Rightarrow> int \<Rightarrow> error + slice" where
  "sliceTo s n =
     (if 0 \<le> n \<and> nat n \<le> cap s then Inr (s\<lparr>len := nat n\<rparr>)
      else Inl (Panic SliceBoundsOutOfRange))"

text \<open>\<^verbatim>\<open>append(s, xs...)\<close>: within the capacity the elements are written behind the
  slice in its own array; otherwise a new array is allocated. Go leaves the capacity of
  the new array to the run time; here it is exactly the new length.\<close>

definition appendSlice :: "heap \<Rightarrow> slice \<Rightarrow> bytes \<Rightarrow> slice \<times> heap" where
  "appendSlice h s xs =
     (if len s + length xs \<le> cap s
      then (s\<lparr>len := len s + length xs\<rparr>, arrayWrite h (arr s) (start s + len s) xs)
      else (\<lparr>arr = length h, start = 0, len = len s + length xs, cap = len s + length xs\<rparr>,
            h @ [sliceRead h s @ xs]))"

text \<open>The fields of \<^verbatim>\<open>rtp.Packet\<close> that \<^verbatim>\<open>DecryptPacket\<close> reads or writes.\<close>

record Packet =
  SSRC :: "32 word"
  SequenceNumber :: "16 word"
  Payload :: slice
  Raw :: slice
  PayloadOffset :: int

section \<open>Counter mode of \<^verbatim>\<open>crypto/cipher\<close>\<close>

text \<open>The counter is a big-endian number: the increment starts at the last byte and
  carries towards the first.\<close>

fun incLE :: "bytes \<Rightarrow> bytes" where
  "incLE [] = []"
| "incLE (x # xs) = (if x + 1 = 0 then 0 # incLE xs else (x + 1) # xs)"

definition incCounter :: "bytes \<Rightarrow> bytes" where
  "incCounter ctr = rev (incLE (rev ctr))"

text \<open>\<^verbatim>\<open>cipher.NewCTR(block, iv)\<close>: a nil block panics at \<^verbatim>\<open>block.BlockSize()\<close>, and an
  \<open>iv\<close> that is not one block long panics. The stream is the block and the counter.\<close>

definition NewCTR :: "cipherBlock option \<Rightarrow> bytes \<Rightarrow> error + cipherBlock \<times> bytes" where
  "NewCTR blk iv =
     (case blk of
        None \<Rightarrow> Inl (Panic NilDereference)
      | Some xk \<Rightarrow>
          if length iv \<noteq> 16 then Inl (Panic IVLengthMismatch) else Inr (xk, iv))"

text \<open>\<^verbatim>\<open>stream.XORKeyStream(dst, src)\<close> on a fresh stream: block \<open>k\<close> of the key stream
  is the encryption of the counter after \<open>k\<close> increments, and a last partial block of
  \<open>src\<close> uses the first bytes of its key-stream block.\<close>

function XORKeyStream :: "cipherBlock \<times> bytes \<Rightarrow> bytes \<Rightarrow> bytes" where
  "XORKeyStream (xk, ctr) src =
     (if src = [] then []
      else xorBytes (take 16 src) (encryptBlockGo xk ctr)
           @ XORKeyStream (xk, incCounter ctr) (drop 16 src))"
  by pat_completeness auto
termination
  by (relation "measure (\<lambda>(stream, src). length src)") auto

section \<open>Decrypting a packet\<close>

text \<open>\<^verbatim>\<open>DecryptPacket\<close>, statement by statement. The context and the packet are passed
  by pointer, so the call returns them as it leaves them, with the store. A panic ends
  the call with \<open>Inl\<close>.\<close>

definition DecryptPacket ::
    "Context \<Rightarrow> Packet \<Rightarrow> heap \<Rightarrow> error + bool \<times> Context \<times> Packet \<times> heap" where
  "DecryptPacket c packet h =
     (if ssrc c \<noteq> 0 \<and> ssrc c \<noteq> SSRC packet then Inr (False, c, packet, h)
      else
        (let c = c\<lparr>ssrc := SSRC packet\<rparr>;
             c = updateRolloverCount c (SequenceNumber packet) in
         case generateCounter c (SequenceNumber packet) of
           Inl e \<Rightarrow> Inl e
         | Inr counter \<Rightarrow>
         (case NewCTR (block c) counter of
           Inl e \<Rightarrow> Inl e
         | Inr stream \<Rightarrow>
         (let h = arrayWrite h (arr (Payload packet)) (start (Payload packet))
                    (XORKeyStream stream (sliceRead h (Payload packet))) in
          case sliceTo (Payload packet) (int (len (Payload packet)) - 10) of
           Inl e \<Rightarrow> Inl e
         | Inr payload \<Rightarrow>
         (case sliceTo (Raw packet) (PayloadOffset packet) of
           Inl e \<Rightarrow> Inl e
         | Inr raw \<Rightarrow>
         (let (raw, h) = appendSlice h raw (sliceRead h payload)
          in Inr (True, c, packet\<lparr>Payload := payload, Raw := raw\<rparr>, h)))))))"

text \<open>A sequence of calls on one context. Each call comes with the caller's packet and
  store of that moment. The run keeps, for every call that returned, its result and
  the context it left; a panic ends the run and is reported beside them.\<close>

fun decryptAll ::
    "Context \<Rightarrow> (Packet \<times> heap) list \<Rightarrow> (bool \<times> Context) list \<times> error option" where
  "decryptAll c [] = ([], None)"
| "decryptAll c ((packet, h) # rest) =
     (case DecryptPacket c packet h of
        Inl e \<Rightarrow> ([], Some e)
      | Inr (ok, c', packet', h') \<Rightarrow>
          (case decryptAll c' rest of (outs, e) \<Rightarrow> ((ok, c') # outs, e)))"

section \<open>The specification's wording of two operations\<close>

text \<open>The decision table as the specification words it (section 4.2), with
  \<open>D = 100\<close> and \<open>MAX = 65535\<close>: the new counter as a function of the prior tracker
  state and the incoming sequence number.\<close>

definition rocDecisionTable :: "32 word \<Rightarrow> bool \<Rightarrow> 16 word \<Rightarrow> 16 word \<Rightarrow> 32 word" where
  "rocDecisionTable roc initialized lastSeq seq =
     (if \<not> initialized then roc
      else if seq = 0 \<and> unat lastSeq > 100 then roc + 1
      else if unat lastSeq < 100 \<and> unat seq > 65435 then roc - 1
      else if unat seq < 100 \<and> unat lastSeq > 65435 then roc + 1
      else roc)"

text \<open>The input block of the key derivation as the specification words it (section
  4.1): the master salt right-aligned in sixteen bytes, and the label sequence xored
  into the final seven bytes of that block.\<close>

definition specDerivationInput :: "bytes \<Rightarrow> byte \<Rightarrow> bytes" where
  "specDerivationInput mSalt label =
     (let blk = replicate (16 - length mSalt) 0 @ mSalt
      in take 9 blk @ xorBytes (drop 9 blk) [label, 0, 0, 0, 0, 0, 0])"

text \<open>The input block as the source builds it: the label sequence xored into the
  final seven bytes of the master salt, and two zero bytes appended on the right.\<close>

definition derivationInput :: "bytes \<Rightarrow> byte \<Rightarrow> bytes" where
  "derivationInput mSalt label =
     take 7 mSalt @ xorBytes (drop 7 mSalt) [label, 0, 0, 0, 0, 0, 0] @ [0, 0]"

section \<open>Test data\<close>

text \<open>The key derivation test vectors of RFC 3711, appendix B.3: the master key, the
  master salt, the expanded master key, and the session key and session salt they derive
  (with the expanded session key).\<close>

definition rfcMasterKey :: bytes where
  "rfcMasterKey = [0xe1, 0xf9, 0x7a, 0x0d, 0x3e, 0x01, 0x8b, 0xe0,
                   0xd6, 0x4f, 0xa3, 0x2c, 0x06, 0xde, 0x41, 0x39]"

definition rfcMasterSalt :: bytes where
  "rfcMasterSalt = [0x0e, 0xc6, 0x75, 0xad, 0x49, 0x8a, 0xfe, 0xeb, 0xb6, 0x96, 0x0b, 0x3a, 0xab, 0xe6]"

definition rfcSchedule :: cipherBlock where
  "rfcSchedule =
     [[0xe1, 0xf9, 0x7a, 0x0d], [0x3e, 0x01, 0x8b, 0xe0], [0xd6, 0x4f, 0xa3, 0x2c], [0x06, 0xde, 0x41, 0x39],
      [0xfd, 0x7a, 0x68, 0x62], [0xc3, 0x7b, 0xe3, 0x82], [0x15, 0x34, 0x40, 0xae], [0x13, 0xea, 0x01, 0x97],
      [0x78, 0x06, 0xe0, 0x1f], [0xbb, 0x7d, 0x03, 0x9d], [0xae, 0x49, 0x43, 0x33], [0xbd, 0xa3, 0x42, 0xa4],
      [0x76, 0x2a, 0xa9, 0x65], [0xcd, 0x57, 0xaa, 0xf8], [0x63, 0x1e, 0xe9, 0xcb], [0xde, 0xbd, 0xab, 0x6f],
      [0x04, 0x48, 0x01, 0x78], [0xc9, 0x1f, 0xab, 0x80], [0xaa, 0x01, 0x42, 0x4b], [0x74, 0xbc, 0xe9, 0x24],
      [0x71, 0x56, 0x37, 0xea], [0xb8, 0x49, 0x9c, 0x6a], [0x12, 0x48, 0xde, 0x21], [0x66, 0xf4, 0x37, 0x05],
      [0xee, 0xcc, 0x5c, 0xd9], [0x56, 0x85, 0xc0, 0xb3], [0x44, 0xcd, 0x1e, 0x92], [0x22, 0x39, 0x29, 0x97],
      [0xbc, 0x69, 0xd4, 0x4a], [0xea, 0xec, 0x14, 0xf9], [0xae, 0x21, 0x0a, 0x6b], [0x8c, 0x18, 0x23, 0xfc],
      [0x91, 0x4f, 0x64, 0x2e], [0x7b, 0xa3, 0x70, 0xd7], [0xd5, 0x82, 0x7a, 0xbc], [0x59, 0x9a, 0x59, 0x40],
      [0x32, 0x84, 0x6d, 0xe5], [0x49, 0x27, 0x1d, 0x32], [0x9c, 0xa5, 0x67, 0x8e], [0xc5, 0x3f, 0x3e, 0xce],
      [0x71, 0x36, 0xe6, 0x43], [0x38, 0x11, 0xfb, 0x71], [0xa4, 0xb4, 0x9c, 0xff], [0x61, 0x8b, 0xa2, 0x31]]"

definition rfcSessionKey :: bytes where
  "rfcSessionKey = [0xc6, 0x1e, 0x7a, 0x93, 0x74, 0x4f, 0x39, 0xee,
                    0x10, 0x73, 0x4a, 0xfe, 0x3f, 0xf7, 0xa0, 0x87]"

definition rfcSessionSalt :: bytes where
  "rfcSessionSalt = [0x30, 0xcb, 0xbc, 0x08, 0x86, 0x3d, 0x8c, 0x85, 0xd4, 0x9d, 0xb3, 0x4a, 0x9a, 0xe1]"

definition rfcSessionSchedule :: cipherBlock where
  "rfcSessionSchedule =
     [[0xc6, 0x1e, 0x7a, 0x93], [0x74, 0x4f, 0x39, 0xee], [0x10, 0x73, 0x4a, 0xfe], [0x3f, 0xf7, 0xa0, 0x87],
      [0xaf, 0xfe, 0x6d, 0xe6], [0xdb, 0xb1, 0x54, 0x08], [0xcb, 0xc2, 0x1e, 0xf6], [0xf4, 0x35, 0xbe, 0x71],
      [0x3b, 0x50, 0xce, 0x59], [0xe0, 0xe1, 0x9a, 0x51], [0x2b, 0x23, 0x84, 0xa7], [0xdf, 0x16, 0x3a, 0xd6],
      [0x78, 0xd0, 0x38, 0xc7], [0x98, 0x31, 0xa2, 0x96], [0xb3, 0x12, 0x26, 0x31], [0x6c, 0x04, 0x1c, 0xe7],
      [0x82, 0x4c, 0xac, 0x97], [0x1a, 0x7d, 0x0e, 0x01], [0xa9, 0x6f, 0x28, 0x30], [0xc5, 0x6b, 0x34, 0xd7],
      [0xed, 0x54, 0xa2, 0x31], [0xf7, 0x29, 0xac, 0x30], [0x5e, 0x46, 0x84, 0x00], [0x9b, 0x2d, 0xb0, 0xd7],
      [0x15, 0xb3, 0xac, 0x25], [0xe2, 0x9a, 0x00, 0x15], [0xbc, 0xdc, 0x84, 0x15], [0x27, 0xf1, 0x34, 0xc2],
      [0xf4, 0xab, 0x89, 0xe9], [0x16, 0x31, 0x89, 0xfc], [0xaa, 0xed, 0x0d, 0xe9], [0x8d, 0x1c, 0x39, 0x2b],
      [0xe8, 0xb9, 0x78, 0xb4], [0xfe, 0x88, 0xf1, 0x48], [0x54, 0x65, 0xfc, 0xa1], [0xd9, 0x79, 0xc5, 0x8a],
      [0x45, 0x1f, 0x06, 0x81], [0xbb, 0x97, 0xf7, 0xc9], [0xef, 0xf2, 0x0b, 0x68], [0x36, 0x8b, 0xce, 0xe2],
      [0x4e, 0x94, 0x9e, 0x84], [0xf5, 0x03, 0x69, 0x4d], [0x1a, 0xf1, 0x62, 0x25], [0x2c, 0x7a, 0xac, 0xc7]]"

text \<open>A context that holds only the master secrets, and the context that
  \<^verbatim>\<open>CreateContext\<close> builds from them (\<open>rfc_CreateContext\<close> below).\<close>

definition rfcContext :: Context where
  "rfcContext = zeroContext\<lparr>masterKey := rfcMasterKey, masterSalt := rfcMasterSalt\<rparr>"

definition rfcSession :: Context where
  "rfcSession = zeroContext\<lparr>masterKey := rfcMasterKey, masterSalt := rfcMasterSalt,
                   sessionKey := rfcSessionKey, sessionSalt := rfcSessionSalt,
                   block := Some rfcSessionSchedule\<rparr>"

text \<open>A packet as the parser hands it over: one array of 38 bytes, a header of 12 bytes
  and a payload of 26 (16 bytes of data and the 10 bytes of the tag), with
  \<^verbatim>\<open>Payload = Raw[PayloadOffset:]\<close>. The payload is \<open>wirePlain\<close> followed by ten
  zero bytes, encrypted for stream 1000, rollover counter 0 and sequence number 5;
  \<open>wireCounter\<close> is the counter block of that index.\<close>

definition wirePlain :: bytes where
  "wirePlain = [0x53, 0x52, 0x54, 0x50, 0x20, 0x74, 0x65, 0x73,
                0x74, 0x20, 0x70, 0x61, 0x63, 0x6b, 0x65, 0x74]"

definition wireCounter :: bytes where
  "wireCounter = [0x30, 0xcb, 0xbc, 0x08, 0x86, 0x3d, 0x8f, 0x6d,
                  0xd4, 0x9d, 0xb3, 0x4a, 0x9a, 0xe4, 0x00, 0x00]"

definition wireCipher :: bytes where
  "wireCipher = [0x5e, 0x57, 0xcc, 0x35, 0x12, 0xa4, 0x5b, 0xc4, 0xe9, 0xce, 0x95, 0xd4, 0x38,
                 0x3f, 0xa9, 0x20, 0x98, 0xd1, 0x52, 0x7c, 0x44, 0x81, 0x63, 0x2c, 0x96, 0x10]"

definition wireHeap :: heap where
  "wireHeap = [[0x80, 0x60, 0x00, 0x05, 0x00, 0x00, 0x00, 0x00, 0x00, 0x00, 0x03, 0xe8] @ wireCipher]"

definition wirePacket :: "32 word \<Rightarrow> 16 word \<Rightarrow> Packet" where
  "wirePacket ident seq =
     \<lparr>SSRC = ident, SequenceNumber = seq,
      Payload = \<lparr>arr = 0, start = 12, len = 26, cap = 26\<rparr>,
      Raw = \<lparr>arr = 0, start = 0, len = 38, cap = 38\<rparr>,
      PayloadOffset = 12\<rparr>"

text \<open>The AES-CM key stream test vector of RFC 3711, appendix B.2: the session key with
  its expansion, and the counter block.\<close>

definition cmKey :: bytes where
  "cmKey = [0x2b, 0x7e, 0x15, 0x16, 0x28, 0xae, 0xd2, 0xa6,
             0xab, 0xf7, 0x15, 0x88, 0x09, 0xcf, 0x4f, 0x3c]"

definition cmSchedule :: cipherBlock where
  "cmSchedule =
     [[0x2b, 0x7e, 0x15, 0x16], [0x28, 0xae, 0xd2, 0xa6], [0xab, 0xf7, 0x15, 0x88], [0x09, 0xcf, 0x4f, 0x3c],
      [0xa0, 0xfa, 0xfe, 0x17], [0x88, 0x54, 0x2c, 0xb1], [0x23, 0xa3, 0x39, 0x39], [0x2a, 0x6c, 0x76, 0x05],
      [0xf2, 0xc2, 0x95, 0xf2], [0x7a, 0x96, 0xb9, 0x43], [0x59, 0x35, 0x80, 0x7a], [0x73, 0x59, 0xf6, 0x7f],
      [0x3d, 0x80, 0x47, 0x7d], [0x47, 0x16, 0xfe, 0x3e], [0x1e, 0x23, 0x7e, 0x44], [0x6d, 0x7a, 0x88, 0x3b],
      [0xef, 0x44, 0xa5, 0x41], [0xa8, 0x52, 0x5b, 0x7f], [0xb6, 0x71, 0x25, 0x3b], [0xdb, 0x0b, 0xad, 0x00],
      [0xd4, 0xd1, 0xc6, 0xf8], [0x7c, 0x83, 0x9d, 0x87], [0xca, 0xf2, 0xb8, 0xbc], [0x11, 0xf9, 0x15, 0xbc],
      [0x6d, 0x88, 0xa3, 0x7a], [0x11, 0x0b, 0x3e, 0xfd], [0xdb, 0xf9, 0x86, 0x41], [0xca, 0x00, 0x93, 0xfd],
      [0x4e, 0x54, 0xf7, 0x0e], [0x5f, 0x5f, 0xc9, 0xf3], [0x84, 0xa6, 0x4f, 0xb2], [0x4e, 0xa6, 0xdc, 0x4f],
      [0xea, 0xd2, 0x73, 0x21], [0xb5, 0x8d, 0xba, 0xd2], [0x31, 0x2b, 0xf5, 0x60], [0x7f, 0x8d, 0x29, 0x2f],
      [0xac, 0x77, 0x66, 0xf3], [0x19, 0xfa, 0xdc, 0x21], [0x28, 0xd1, 0x29, 0x41], [0x57, 0x5c, 0x00, 0x6e],
      [0xd0, 0x14, 0xf9, 0xa8], [0xc9, 0xee, 0x25, 0x89], [0xe1, 0x3f, 0x0c, 0xc8], [0xb6, 0x63, 0x0c, 0xa6]]"

definition cmCounter :: bytes where
  "cmCounter = [0xf0, 0xf1, 0xf2, 0xf3, 0xf4, 0xf5, 0xf6, 0xf7,
                 0xf8, 0xf9, 0xfa, 0xfb, 0xfc, 0xfd, 0x00, 0x00]"

section \<open>Evaluating the cipher\<close>

text \<open>The recursive equation of \<^verbatim>\<open>XORKeyStream\<close> is used where it is named only.\<close>

declare XORKeyStream.simps [simp del]

text \<open>The two tables by value, and the loops unfolded on numerals, so that the cipher can
  be run on concrete blocks by rewriting.\<close>

lemma subByte_table:
    "subByte 0 = 99" "subByte 1 = 124" "subByte 2 = 119" "subByte 3 = 123" "subByte 4 = 242" "subByte 5 = 107" "subByte 6 = 111" "subByte 7 = 197"
    "subByte 8 = 48" "subByte 9 = 1" "subByte 10 = 103" "subByte 11 = 43" "subByte 12 = 254" "subByte 13 = 215" "subByte 14 = 171" "subByte 15 = 118"
    "subByte 16 = 202" "subByte 17 = 130" "subByte 18 = 201" "subByte 19 = 125" "subByte 20 = 250" "subByte 21 = 89" "subByte 22 = 71" "subByte 23 = 240"
    "subByte 24 = 173" "subByte 25 = 212" "subByte 26 = 162" "subByte 27 = 175" "subByte 28 = 156" "subByte 29 = 164" "subByte 30 = 114" "subByte 31 = 192"
    "subByte 32 = 183" "subByte 33 = 253" "subByte 34 = 147" "subByte 35 = 38" "subByte 36 = 54" "subByte 37 = 63" "subByte 38 = 247" "subByte 39 = 204"
    "subByte 40 = 52" "subByte 41 = 165" "subByte 42 = 229" "subByte 43 = 241" "subByte 44 = 113" "subByte 45 = 216" "subByte 46 = 49" "subByte 47 = 21"
    "subByte 48 = 4" "subByte 49 = 199" "subByte 50 = 35" "subByte 51 = 195" "subByte 52 = 24" "subByte 53 = 150" "subByte 54 = 5" "subByte 55 = 154"
    "subByte 56 = 7" "subByte 57 = 18" "subByte 58 = 128" "subByte 59 = 226" "subByte 60 = 235" "subByte 61 = 39" "subByte 62 = 178" "subByte 63 = 117"
    "subByte 64 = 9" "subByte 65 = 131" "subByte 66 = 44" "subByte 67 = 26" "subByte 68 = 27" "subByte 69 = 110" "subByte 70 = 90" "subByte 71 = 160"
    "subByte 72 = 82" "subByte 73 = 59" "subByte 74 = 214" "subByte 75 = 179" "subByte 76 = 41" "subByte 77 = 227" "subByte 78 = 47" "subByte 79 = 132"
    "subByte 80 = 83" "subByte 81 = 209" "subByte 82 = 0" "subByte 83 = 237" "subByte 84 = 32" "subByte 85 = 252" "subByte 86 = 177" "subByte 87 = 91"
    "subByte 88 = 106" "subByte 89 = 203" "subByte 90 = 190" "subByte 91 = 57" "subByte 92 = 74" "subByte 93 = 76" "subByte 94 = 88" "subByte 95 = 207"
    "subByte 96 = 208" "subByte 97 = 239" "subByte 98 = 170" "subByte 99 = 251" "subByte 100 = 67" "subByte 101 = 77" "subByte 102 = 51" "subByte 103 = 133"
    "subByte 104 = 69" "subByte 105 = 249" "subByte 106 = 2" "subByte 107 = 127" "subByte 108 = 80" "subByte 109 = 60" "subByte 110 = 159" "subByte 111 = 168"
    "subByte 112 = 81" "subByte 113 = 163" "subByte 114 = 64" "subByte 115 = 143" "subByte 116 = 146" "subByte 117 = 157" "subByte 118 = 56" "subByte 119 = 245"
    "subByte 120 = 188" "subByte 121 = 182" "subByte 122 = 218" "subByte 123 = 33" "subByte 124 = 16" "subByte 125 = 255" "subByte 126 = 243" "subByte 127 = 210"
    "subByte 128 = 205" "subByte 129 = 12" "subByte 130 = 19" "subByte 131 = 236" "subByte 132 = 95" "subByte 133 = 151" "subByte 134 = 68" "subByte 135 = 23"
    "subByte 136 = 196" "subByte 137 = 167" "subByte 138 = 126" "subByte 139 = 61" "subByte 140 = 100" "subByte 141 = 93" "subByte 142 = 25" "subByte 143 = 115"
    "subByte 144 = 96" "subByte 145 = 129" "subByte 146 = 79" "subByte 147 = 220" "subByte 148 = 34" "subByte 149 = 42" "subByte 150 = 144" "subByte 151 = 136"
    "subByte 152 = 70" "subByte 153 = 238" "subByte 154 = 184" "subByte 155 = 20" "subByte 156 = 222" "subByte 157 = 94" "subByte 158 = 11" "subByte 159 = 219"
    "subByte 160 = 224" "subByte 161 = 50" "subByte 162 = 58" "subByte 163 = 10" "subByte 164 = 73" "subByte 165 = 6" "subByte 166 = 36" "subByte 167 = 92"
    "subByte 168 = 194" "subByte 169 = 211" "subByte 170 = 172" "subByte 171 = 98" "subByte 172 = 145" "subByte 173 = 149" "subByte 174 = 228" "subByte 175 = 121"
    "subByte 176 = 231" "subByte 177 = 200" "subByte 178 = 55" "subByte 179 = 109" "subByte 180 = 141" "subByte 181 = 213" "subByte 182 = 78" "subByte 183 = 169"
    "subByte 184 = 108" "subByte 185 = 86" "subByte 186 = 244" "subByte 187 = 234" "subByte 188 = 101" "subByte 189 = 122" "subByte 190 = 174" "subByte 191 = 8"
    "subByte 192 = 186" "subByte 193 = 120" "subByte 194 = 37" "subByte 195 = 46" "subByte 196 = 28" "subByte 197 = 166" "subByte 198 = 180" "subByte 199 = 198"
    "subByte 200 = 232" "subByte 201 = 221" "subByte 202 = 116" "subByte 203 = 31" "subByte 204 = 75" "subByte 205 = 189" "subByte 206 = 139" "subByte 207 = 138"
    "subByte 208 = 112" "subByte 209 = 62" "subByte 210 = 181" "subByte 211 = 102" "subByte 212 = 72" "subByte 213 = 3" "subByte 214 = 246" "subByte 215 = 14"
    "subByte 216 = 97" "subByte 217 = 53" "subByte 218 = 87" "subByte 219 = 185" "subByte 220 = 134" "subByte 221 = 193" "subByte 222 = 29" "subByte 223 = 158"
    "subByte 224 = 225" "subByte 225 = 248" "subByte 226 = 152" "subByte 227 = 17" "subByte 228 = 105" "subByte 229 = 217" "subByte 230 = 142" "subByte 231 = 148"
    "subByte 232 = 155" "subByte 233 = 30" "subByte 234 = 135" "subByte 235 = 233" "subByte 236 = 206" "subByte 237 = 85" "subByte 238 = 40" "subByte 239 = 223"
    "subByte 240 = 140" "subByte 241 = 161" "subByte 242 = 137" "subByte 243 = 13" "subByte 244 = 191" "subByte 245 = 230" "subByte 246 = 66" "subByte 247 = 104"
    "subByte 248 = 65" "subByte 249 = 153" "subByte 250 = 45" "subByte 251 = 15" "subByte 252 = 176" "subByte 253 = 84" "subByte 254 = 187" "subByte 255 = 22"
  by (simp_all add: subByte_def sbox0_def)

lemma xtime_table:
    "xtime 0 = 0" "xtime 1 = 2" "xtime 2 = 4" "xtime 3 = 6" "xtime 4 = 8" "xtime 5 = 10" "xtime 6 = 12" "xtime 7 = 14"
    "xtime 8 = 16" "xtime 9 = 18" "xtime 10 = 20" "xtime 11 = 22" "xtime 12 = 24" "xtime 13 = 26" "xtime 14 = 28" "xtime 15 = 30"
    "xtime 16 = 32" "xtime 17 = 34" "xtime 18 = 36" "xtime 19 = 38" "xtime 20 = 40" "xtime 21 = 42" "xtime 22 = 44" "xtime 23 = 46"
    "xtime 24 = 48" "xtime 25 = 50" "xtime 26 = 52" "xtime 27 = 54" "xtime 28 = 56" "xtime 29 = 58" "xtime 30 = 60" "xtime 31 = 62"
    "xtime 32 = 64" "xtime 33 = 66" "xtime 34 = 68" "xtime 35 = 70" "xtime 36 = 72" "xtime 37 = 74" "xtime 38 = 76" "xtime 39 = 78"
    "xtime 40 = 80" "xtime 41 = 82" "xtime 42 = 84" "xtime 43 = 86" "xtime 44 = 88" "xtime 45 = 90" "xtime 46 = 92" "xtime 47 = 94"
    "xtime 48 = 96" "xtime 49 = 98" "xtime 50 = 100" "xtime 51 = 102" "xtime 52 = 104" "xtime 53 = 106" "xtime 54 = 108" "xtime 55 = 110"
    "xtime 56 = 112" "xtime 57 = 114" "xtime 58 = 116" "xtime 59 = 118" "xtime 60 = 120" "xtime 61 = 122" "xtime 62 = 124" "xtime 63 = 126"
    "xtime 64 = 128" "xtime 65 = 130" "xtime 66 = 132" "xtime 67 = 134" "xtime 68 = 136" "xtime 69 = 138" "xtime 70 = 140" "xtime 71 = 142"
    "xtime 72 = 144" "xtime 73 = 146" "xtime 74 = 148" "xtime 75 = 150" "xtime 76 = 152" "xtime 77 = 154" "xtime 78 = 156" "xtime 79 = 158"
    "xtime 80 = 160" "xtime 81 = 162" "xtime 82 = 164" "xtime 83 = 166" "xtime 84 = 168" "xtime 85 = 170" "xtime 86 = 172" "xtime 87 = 174"
    "xtime 88 = 176" "xtime 89 = 178" "xtime 90 = 180" "xtime 91 = 182" "xtime 92 = 184" "xtime 93 = 186" "xtime 94 = 188" "xtime 95 = 190"
    "xtime 96 = 192" "xtime 97 = 194" "xtime 98 = 196" "xtime 99 = 198" "xtime 100 = 200" "xtime 101 = 202" "xtime 102 = 204" "xtime 103 = 206"
    "xtime 104 = 208" "xtime 105 = 210" "xtime 106 = 212" "xtime 107 = 214" "xtime 108 = 216" "xtime 109 = 218" "xtime 110 = 220" "xtime 111 = 222"
    "xtime 112 = 224" "xtime 113 = 226" "xtime 114 = 228" "xtime 115 = 230" "xtime 116 = 232" "xtime 117 = 234" "xtime 118 = 236" "xtime 119 = 238"
    "xtime 120 = 240" "xtime 121 = 242" "xtime 122 = 244" "xtime 123 = 246" "xtime 124 = 248" "xtime 125 = 250" "xtime 126 = 252" "xtime 127 = 254"
    "xtime 128 = 27" "xtime 129 = 25" "xtime 130 = 31" "xtime 131 = 29" "xtime 132 = 19" "xtime 133 = 17" "xtime 134 = 23" "xtime 135 = 21"
    "xtime 136 = 11" "xtime 137 = 9" "xtime 138 = 15" "xtime 139 = 13" "xtime 140 = 3" "xtime 141 = 1" "xtime 142 = 7" "xtime 143 = 5"
    "xtime 144 = 59" "xtime 145 = 57" "xtime 146 = 63" "xtime 147 = 61" "xtime 148 = 51" "xtime 149 = 49" "xtime 150 = 55" "xtime 151 = 53"
    "xtime 152 = 43" "xtime 153 = 41" "xtime 154 = 47" "xtime 155 = 45" "xtime 156 = 35" "xtime 157 = 33" "xtime 158 = 39" "xtime 159 = 37"
    "xtime 160 = 91" "xtime 161 = 89" "xtime 162 = 95" "xtime 163 = 93" "xtime 164 = 83" "xtime 165 = 81" "xtime 166 = 87" "xtime 167 = 85"
    "xtime 168 = 75" "xtime 169 = 73" "xtime 170 = 79" "xtime 171 = 77" "xtime 172 = 67" "xtime 173 = 65" "xtime 174 = 71" "xtime 175 = 69"
    "xtime 176 = 123" "xtime 177 = 121" "xtime 178 = 127" "xtime 179 = 125" "xtime 180 = 115" "xtime 181 = 113" "xtime 182 = 119" "xtime 183 = 117"
    "xtime 184 = 107" "xtime 185 = 105" "xtime 186 = 111" "xtime 187 = 109" "xtime 188 = 99" "xtime 189 = 97" "xtime 190 = 103" "xtime 191 = 101"
    "xtime 192 = 155" "xtime 193 = 153" "xtime 194 = 159" "xtime 195 = 157" "xtime 196 = 147" "xtime 197 = 145" "xtime 198 = 151" "xtime 199 = 149"
    "xtime 200 = 139" "xtime 201 = 137" "xtime 202 = 143" "xtime 203 = 141" "xtime 204 = 131" "xtime 205 = 129" "xtime 206 = 135" "xtime 207 = 133"
    "xtime 208 = 187" "xtime 209 = 185" "xtime 210 = 191" "xtime 211 = 189" "xtime 212 = 179" "xtime 213 = 177" "xtime 214 = 183" "xtime 215 = 181"
    "xtime 216 = 171" "xtime 217 = 169" "xtime 218 = 175" "xtime 219 = 173" "xtime 220 = 163" "xtime 221 = 161" "xtime 222 = 167" "xtime 223 = 165"
    "xtime 224 = 219" "xtime 225 = 217" "xtime 226 = 223" "xtime 227 = 221" "xtime 228 = 211" "xtime 229 = 209" "xtime 230 = 215" "xtime 231 = 213"
    "xtime 232 = 203" "xtime 233 = 201" "xtime 234 = 207" "xtime 235 = 205" "xtime 236 = 195" "xtime 237 = 193" "xtime 238 = 199" "xtime 239 = 197"
    "xtime 240 = 251" "xtime 241 = 249" "xtime 242 = 255" "xtime 243 = 253" "xtime 244 = 243" "xtime 245 = 241" "xtime 246 = 247" "xtime 247 = 245"
    "xtime 248 = 235" "xtime 249 = 233" "xtime 250 = 239" "xtime 251 = 237" "xtime 252 = 227" "xtime 253 = 225" "xtime 254 = 231" "xtime 255 = 229"
  by (simp_all add: xtime_def)

lemma expandLoop_numeral:
  "expandLoop nk i (numeral n) enc = expandLoop nk (Suc i) (pred_numeral n) (enc @ [expandStep nk i enc])"
  by (simp add: numeral_eq_Suc)

lemma rounds_numeral:
  "rounds xk r (numeral n) s =
     rounds xk (Suc r) (pred_numeral n) (addRoundKey xk r (mixColumns (shiftRows (subBytes s))))"
  by (simp add: numeral_eq_Suc)

lemmas aes_eval = subw_def rotw_def xorBytes_def roundKey_def addRoundKey_def
  subBytes_def shiftRows_def mixColumns_def mixColumn_def xtime_table powx_def subByte_table
  expandLoop_numeral rounds_numeral expandStep_def

lemma expandKeyGo_16:
  "length key = 16 \<Longrightarrow> expandKeyGo key =
     expandLoop 4 4 40 [take 4 key, take 4 (drop 4 key), take 4 (drop 8 key), take 4 (drop 12 key)]"
  by (simp add: expandKeyGo_def Let_def upt_rec)

lemma encryptBlockGo_44:
  "length xk = 44 \<Longrightarrow> encryptBlockGo xk src =
     addRoundKey xk 10 (shiftRows (subBytes (rounds xk 1 9 (addRoundKey xk 0 (take 16 src)))))"
  by (simp add: encryptBlockGo_def)

lemma XORKeyStream_Nil: "XORKeyStream (xk, ctr) [] = []"
  by (simp add: XORKeyStream.simps)

lemma XORKeyStream_Cons:
  "XORKeyStream (xk, ctr) (x # xs) =
     xorBytes (take 16 (x # xs)) (encryptBlockGo xk ctr)
     @ XORKeyStream (xk, incCounter ctr) (drop 16 (x # xs))"
  by (subst XORKeyStream.simps) simp

lemma replicate16:
  "replicate 16 (0::byte) = [0, 0, 0, 0, 0, 0, 0, 0, 0, 0, 0, 0, 0, 0, 0, 0]"
  by (simp add: numeral_eq_Suc)

section \<open>Lengths in the cipher\<close>

lemma length_concat_words:
  "\<forall>w \<in> set ws. length w = 4 \<Longrightarrow> length (concat ws) = 4 * length ws"
  by (induction ws) simp_all

lemma length_xorBytes: "length (xorBytes a b) = min (length a) (length b)"
  by (simp add: xorBytes_def)

lemma length_expandStep:
  assumes "\<forall>w \<in> set enc. length w = 4" and "i = length enc" and "0 < nk" and "nk \<le> i"
  shows "length (expandStep nk i enc) = 4"
proof -
  have a: "length (enc ! (i - nk)) = 4" and b: "length (enc ! (i - Suc 0)) = 4"
    using assms by simp_all
  show ?thesis
    by (simp add: expandStep_def length_xorBytes subw_def rotw_def a b)
qed

lemma expandLoop_words:
  assumes "\<forall>w \<in> set enc. length w = 4" and "i = length enc" and "0 < nk" and "nk \<le> i"
  shows "(\<forall>w \<in> set (expandLoop nk i n enc). length w = 4)
       \<and> length (expandLoop nk i n enc) = length enc + n"
  using assms
proof (induction n arbitrary: i enc)
  case 0
  then show ?case by simp
next
  case (Suc n)
  have "length (expandStep nk i enc) = 4"
    using Suc.prems by (rule length_expandStep)
  then have "(\<forall>w \<in> set (expandLoop nk (Suc i) n (enc @ [expandStep nk i enc])). length w = 4)
       \<and> length (expandLoop nk (Suc i) n (enc @ [expandStep nk i enc]))
           = length (enc @ [expandStep nk i enc]) + n"
    using Suc.prems by (intro Suc.IH) auto
  then show ?case by simp
qed

lemma expandKeyGo_words:
  assumes "length key = 16 \<or> length key = 24 \<or> length key = 32"
  shows "(\<forall>w \<in> set (expandKeyGo key). length w = 4) \<and> length (expandKeyGo key) = length key + 28"
proof -
  define nk where "nk = length key div 4"
  define enc where "enc = map (\<lambda>i. take 4 (drop (4 * i) key)) [0..<nk]"
  have nk: "0 < nk" "length key = 4 * nk"
    using assms by (auto simp: nk_def)
  have words: "\<forall>w \<in> set enc. length w = 4"
    using nk by (auto simp: enc_def)
  have len: "length enc = nk"
    by (simp add: enc_def)
  have "(\<forall>w \<in> set (expandLoop nk nk (length key + 28 - nk) enc). length w = 4)
       \<and> length (expandLoop nk nk (length key + 28 - nk) enc) = length enc + (length key + 28 - nk)"
    using words len nk(1) by (intro expandLoop_words) simp_all
  then show ?thesis
    using len nk by (simp add: expandKeyGo_def Let_def nk_def [symmetric] enc_def [symmetric])
qed

lemma length_roundKey:
  assumes "\<forall>w \<in> set xk. length w = 4" and "4 * r + 4 \<le> length xk"
  shows "length (roundKey xk r) = 16"
proof -
  have "\<forall>w \<in> set (take 4 (drop (4 * r) xk)). length w = 4"
    using assms(1) by (meson in_set_dropD in_set_takeD)
  then have "length (roundKey xk r) = 4 * length (take 4 (drop (4 * r) xk))"
    unfolding roundKey_def by (rule length_concat_words)
  then show ?thesis
    using assms(2) by simp
qed

lemma length_encryptBlockGo:
  assumes "\<forall>w \<in> set xk. length w = 4" and "4 \<le> length xk"
  shows "length (encryptBlockGo xk src) = 16"
proof -
  have "4 * (length xk div 4 - 1) + 4 \<le> length xk"
    using assms(2) by simp
  with assms(1) have "length (roundKey xk (length xk div 4 - 1)) = 16"
    by (rule length_roundKey)
  then show ?thesis
    by (simp add: encryptBlockGo_def addRoundKey_def length_xorBytes shiftRows_def)
qed

lemma NewCipher_block_length:
  assumes "NewCipher key = Inr xk"
  shows "length (encryptBlockGo xk src) = 16"
proof -
  have k: "length key = 16 \<or> length key = 24 \<or> length key = 32" and xk: "xk = expandKeyGo key"
    using assms by (auto simp: NewCipher_def split: if_splits)
  show ?thesis
    using expandKeyGo_words [OF k] unfolding xk by (intro length_encryptBlockGo) simp_all
qed

section \<open>Session key and session salt\<close>

lemma length14:
  assumes "length (xs :: 'a list) = 14"
  obtains a0 a1 a2 a3 a4 a5 a6 a7 a8 a9 a10 a11 a12 a13
  where "xs = [a0, a1, a2, a3, a4, a5, a6, a7, a8, a9, a10, a11, a12, a13]"
proof -
  have "length xs = Suc (Suc (Suc (Suc (Suc (Suc (Suc (Suc (Suc (Suc (Suc (Suc (Suc (Suc 0)))))))))))))"
    using assms by simp
  then show ?thesis
    using that by (auto simp: length_Suc_conv)
qed

lemma xorLabelLoop_salt14:
  assumes "length mSalt = 14"
  shows "xorLabelLoop [label, 0, 0, 0, 0, 0, 0] (length [label, 0, 0, 0, 0, 0, 0 :: byte])
           (int (length mSalt) - 1) mSalt
         = Inr (take 7 mSalt @ xorBytes (drop 7 mSalt) [label, 0, 0, 0, 0, 0, 0])"
proof -
  obtain a0 a1 a2 a3 a4 a5 a6 a7 a8 a9 a10 a11 a12 a13
    where salt: "mSalt = [a0, a1, a2, a3, a4, a5, a6, a7, a8, a9, a10, a11, a12, a13]"
    using assms by (rule length14)
  have n7: "length [label, 0, 0, 0, 0, 0, 0 :: byte] = Suc (Suc (Suc (Suc (Suc (Suc (Suc 0))))))"
    by simp
  show ?thesis
    unfolding n7 unfolding salt by (simp add: xorBytes_def)
qed

lemma generateSessionKey_value:
  assumes "length (masterKey c) = 16" and "length (masterSalt c) = 14"
  shows "generateSessionKey c
         = Inr (encryptBlockGo (expandKeyGo (masterKey c))
                  (derivationInput (masterSalt c) labelEncryption))"
proof -
  have len: "length (derivationInput (masterSalt c) labelEncryption) = 16"
    using assms(2) by (simp add: derivationInput_def length_xorBytes)
  have key: "NewCipher (masterKey c) = Inr (expandKeyGo (masterKey c))"
    using assms(1) by (simp add: NewCipher_def)
  show ?thesis
    unfolding generateSessionKey_def Let_def xorLabelLoop_salt14 [OF assms(2)]
    using len by (simp add: key Encrypt_def derivationInput_def)
qed

lemma generateSessionSalt_value:
  assumes "length (masterKey c) = 16" and "length (masterSalt c) = 14"
  shows "generateSessionSalt c
         = Inr (take 14 (encryptBlockGo (expandKeyGo (masterKey c))
                  (derivationInput (masterSalt c) labelSalt)))"
proof -
  have len: "length (derivationInput (masterSalt c) labelSalt) = 16"
    using assms(2) by (simp add: derivationInput_def length_xorBytes)
  have key: "NewCipher (masterKey c) = Inr (expandKeyGo (masterKey c))"
    using assms(1) by (simp add: NewCipher_def)
  show ?thesis
    unfolding generateSessionSalt_def Let_def xorLabelLoop_salt14 [OF assms(2)]
    using len by (simp add: key Encrypt_def derivationInput_def saltLen_def)
qed

text \<open>The vectors of RFC 3711, appendix B.3, computed by the model: the expanded master
  key, the two input blocks of the source and the input block of the specification's
  wording, and their encryptions.\<close>

lemma rfcMasterKey_length: "length rfcMasterKey = 16"
  by (simp add: rfcMasterKey_def)

lemma rfcMasterSalt_length: "length rfcMasterSalt = 14"
  by (simp add: rfcMasterSalt_def)

lemma rfcSchedule_length: "length rfcSchedule = 44"
  by (simp add: rfcSchedule_def)

lemma rfc_expandKeyGo: "expandKeyGo rfcMasterKey = rfcSchedule"
  unfolding expandKeyGo_16 [OF rfcMasterKey_length] rfcSchedule_def
  by (simp add: rfcMasterKey_def aes_eval)

lemma rfc_derivationInput:
  "derivationInput rfcMasterSalt labelEncryption =
     [0x0e, 0xc6, 0x75, 0xad, 0x49, 0x8a, 0xfe, 0xeb, 0xb6, 0x96, 0x0b, 0x3a, 0xab, 0xe6, 0x00, 0x00]"
  "derivationInput rfcMasterSalt labelSalt =
     [0x0e, 0xc6, 0x75, 0xad, 0x49, 0x8a, 0xfe, 0xe9, 0xb6, 0x96, 0x0b, 0x3a, 0xab, 0xe6, 0x00, 0x00]"
  "specDerivationInput rfcMasterSalt labelEncryption =
     [0x00, 0x00, 0x0e, 0xc6, 0x75, 0xad, 0x49, 0x8a, 0xfe, 0xeb, 0xb6, 0x96, 0x0b, 0x3a, 0xab, 0xe6]"
  by (simp_all add: derivationInput_def specDerivationInput_def rfcMasterSalt_def xorBytes_def
      labelEncryption_def labelSalt_def Let_def numeral_2_eq_2)

lemma rfc_cipher_key:
  "encryptBlockGo rfcSchedule (derivationInput rfcMasterSalt labelEncryption) =
     [0xc6, 0x1e, 0x7a, 0x93, 0x74, 0x4f, 0x39, 0xee, 0x10, 0x73, 0x4a, 0xfe, 0x3f, 0xf7, 0xa0, 0x87]"
  unfolding encryptBlockGo_44 [OF rfcSchedule_length] rfc_derivationInput
  unfolding rfcSchedule_def by (simp add: aes_eval)

lemma rfc_cipher_salt:
  "encryptBlockGo rfcSchedule (derivationInput rfcMasterSalt labelSalt) =
     [0x30, 0xcb, 0xbc, 0x08, 0x86, 0x3d, 0x8c, 0x85, 0xd4, 0x9d, 0xb3, 0x4a, 0x9a, 0xe1, 0x7a, 0xc6]"
  unfolding encryptBlockGo_44 [OF rfcSchedule_length] rfc_derivationInput
  unfolding rfcSchedule_def by (simp add: aes_eval)

lemma rfc_spec_key:
  "encryptBlockGo rfcSchedule (specDerivationInput rfcMasterSalt labelEncryption) =
     [0x72, 0x4f, 0x89, 0x3a, 0x10, 0x36, 0x73, 0xe4, 0x98, 0x57, 0xb9, 0x20, 0x16, 0x65, 0xc3, 0xfd]"
  unfolding encryptBlockGo_44 [OF rfcSchedule_length] rfc_derivationInput
  unfolding rfcSchedule_def by (simp add: aes_eval)

text \<open>C5, as amended: for a master key of 16 bytes and a master salt of 14 bytes,
  \<^verbatim>\<open>generateSessionKey\<close> xors the sequence \<open>{label, 0, 0, 0, 0, 0, 0}\<close> (label 0x00)
  into the final seven bytes of the 14-byte master salt, pads the result on the right
  with two zero bytes (so the salt is left-aligned in the 16-byte block), encrypts that
  block with AES-128 under the master key and returns all 16 bytes;
  \<^verbatim>\<open>generateSessionSalt\<close> returns the first 14 bytes of the same computation under
  label 0x02.\<close>

theorem session_derivation:
  assumes "length (masterKey c) = 16" and "length (masterSalt c) = 14"
  shows "generateSessionKey c =
           Inr (encryptBlockGo (expandKeyGo (masterKey c))
                  (take 7 (masterSalt c)
                   @ xorBytes (drop 7 (masterSalt c)) [labelEncryption, 0, 0, 0, 0, 0, 0]
                   @ [0, 0]))
       \<and> generateSessionSalt c =
           Inr (take 14 (encryptBlockGo (expandKeyGo (masterKey c))
                  (take 7 (masterSalt c)
                   @ xorBytes (drop 7 (masterSalt c)) [labelSalt, 0, 0, 0, 0, 0, 0]
                   @ [0, 0])))
       \<and> length (encryptBlockGo (expandKeyGo (masterKey c))
                  (take 7 (masterSalt c)
                   @ xorBytes (drop 7 (masterSalt c)) [labelEncryption, 0, 0, 0, 0, 0, 0]
                   @ [0, 0])) = 16"
proof -
  have "NewCipher (masterKey c) = Inr (expandKeyGo (masterKey c))"
    using assms(1) by (simp add: NewCipher_def)
  then have "length (encryptBlockGo (expandKeyGo (masterKey c)) src) = 16" for src
    by (rule NewCipher_block_length)
  then show ?thesis
    using generateSessionKey_value [OF assms] generateSessionSalt_value [OF assms]
    by (simp add: derivationInput_def)
qed

text \<open>Witness for C5: on the master key and master salt of RFC 3711, appendix B.3, the
  two derivations return the cipher key and the cipher salt that the RFC lists.\<close>

theorem session_derivation_witness:
  "length (masterKey rfcContext) = 16 \<and> length (masterSalt rfcContext) = 14
   \<and> generateSessionKey rfcContext =
       Inr [0xc6, 0x1e, 0x7a, 0x93, 0x74, 0x4f, 0x39, 0xee,
            0x10, 0x73, 0x4a, 0xfe, 0x3f, 0xf7, 0xa0, 0x87]
   \<and> generateSessionSalt rfcContext =
       Inr [0x30, 0xcb, 0xbc, 0x08, 0x86, 0x3d, 0x8c, 0x85, 0xd4, 0x9d, 0xb3, 0x4a, 0x9a, 0xe1]"
proof -
  have k: "length (masterKey rfcContext) = 16" and s: "length (masterSalt rfcContext) = 14"
    by (simp_all add: rfcContext_def rfcMasterKey_length rfcMasterSalt_length)
  have mk: "masterKey rfcContext = rfcMasterKey" and ms: "masterSalt rfcContext = rfcMasterSalt"
    by (simp_all add: rfcContext_def)
  show ?thesis
    using session_derivation [OF k s] k s rfc_cipher_key rfc_cipher_salt
    unfolding mk ms rfc_expandKeyGo derivationInput_def
    by simp
qed

text \<open>Counterexample to C5 as stated: on the same master key and salt, the session key
  is not the encryption of the block built as the specification words it (master salt
  right-aligned, label xored into the final seven bytes of the 16-byte block).\<close>

theorem session_derivation_not_right_aligned:
  "generateSessionKey rfcContext \<noteq>
     Inr (encryptBlockGo (expandKeyGo (masterKey rfcContext))
            (specDerivationInput (masterSalt rfcContext) labelEncryption))"
proof -
  have k: "length (masterKey rfcContext) = 16" and s: "length (masterSalt rfcContext) = 14"
    by (simp_all add: rfcContext_def rfcMasterKey_length rfcMasterSalt_length)
  have mk: "masterKey rfcContext = rfcMasterKey" and ms: "masterSalt rfcContext = rfcMasterSalt"
    by (simp_all add: rfcContext_def)
  have "generateSessionKey rfcContext =
          Inr [0xc6, 0x1e, 0x7a, 0x93, 0x74, 0x4f, 0x39, 0xee,
               0x10, 0x73, 0x4a, 0xfe, 0x3f, 0xf7, 0xa0, 0x87]"
    using generateSessionKey_value [OF k s]
    by (simp add: mk ms rfc_expandKeyGo rfc_cipher_key)
  then show ?thesis
    by (simp add: mk ms rfc_expandKeyGo rfc_spec_key)
qed

section \<open>Creating a context\<close>

lemma CreateContext_value:
  assumes "length mKey = 16" and "length mSalt = 14"
  shows "CreateContext mKey mSalt profile =
     Inr (zeroContext\<lparr>masterKey := mKey, masterSalt := mSalt,
            sessionKey := encryptBlockGo (expandKeyGo mKey) (derivationInput mSalt labelEncryption),
            sessionSalt := take 14 (encryptBlockGo (expandKeyGo mKey) (derivationInput mSalt labelSalt)),
            block := Some (expandKeyGo
              (encryptBlockGo (expandKeyGo mKey) (derivationInput mSalt labelEncryption)))\<rparr>)"
proof -
  let ?c = "zeroContext\<lparr>masterKey := mKey, masterSalt := mSalt\<rparr>"
  have "NewCipher mKey = Inr (expandKeyGo mKey)"
    using assms(1) by (simp add: NewCipher_def)
  then have len: "length (encryptBlockGo (expandKeyGo mKey) src) = 16" for src
    by (rule NewCipher_block_length)
  have sk: "generateSessionKey ?c
            = Inr (encryptBlockGo (expandKeyGo mKey) (derivationInput mSalt labelEncryption))"
    using generateSessionKey_value [of ?c] assms by simp
  have ss: "generateSessionSalt (?c\<lparr>sessionKey := k\<rparr>)
            = Inr (take 14 (encryptBlockGo (expandKeyGo mKey) (derivationInput mSalt labelSalt)))"
    for k
    using generateSessionSalt_value [of "?c\<lparr>sessionKey := k\<rparr>"] assms by simp
  show ?thesis
    using assms
    by (simp add: CreateContext_def keyLen_def saltLen_def Let_def sk ss NewCipher_def len)
qed

text \<open>C9: \<^verbatim>\<open>CreateContext\<close> returns a context for every master key of exactly 16 bytes
  and master salt of exactly 14 bytes (the context holds both, a session key of 16
  bytes, a session salt of 14 bytes, the cipher keyed by the session key, and an unbound,
  uninitialised tracker state); for every other master key length it returns the
  master-key error, and for a master key of 16 bytes with any other salt length the
  master-salt error. An error is returned without a context.\<close>

theorem CreateContext_lengths:
  "(length mKey = 16 \<and> length mSalt = 14 \<longrightarrow>
      (\<exists>c. CreateContext mKey mSalt profile = Inr c
         \<and> masterKey c = mKey \<and> masterSalt c = mSalt
         \<and> length (sessionKey c) = 16 \<and> length (sessionSalt c) = 14
         \<and> block c = Some (expandKeyGo (sessionKey c))
         \<and> ssrc c = 0 \<and> rolloverCounter c = 0 \<and> \<not> rolloverHasProcessed c))
   \<and> (length mKey \<noteq> 16 \<longrightarrow> CreateContext mKey mSalt profile = Inl MasterKeyLenError)
   \<and> (length mKey = 16 \<and> length mSalt \<noteq> 14 \<longrightarrow>
        CreateContext mKey mSalt profile = Inl MasterSaltLenError)"
proof (intro conjI impI)
  assume a: "length mKey = 16 \<and> length mSalt = 14"
  have "NewCipher mKey = Inr (expandKeyGo mKey)"
    using a by (simp add: NewCipher_def)
  then have len: "length (encryptBlockGo (expandKeyGo mKey) src) = 16" for src
    by (rule NewCipher_block_length)
  show "\<exists>c. CreateContext mKey mSalt profile = Inr c
         \<and> masterKey c = mKey \<and> masterSalt c = mSalt
         \<and> length (sessionKey c) = 16 \<and> length (sessionSalt c) = 14
         \<and> block c = Some (expandKeyGo (sessionKey c))
         \<and> ssrc c = 0 \<and> rolloverCounter c = 0 \<and> \<not> rolloverHasProcessed c"
    using a by (simp add: CreateContext_value len zeroContext_def)
next
  assume "length mKey \<noteq> 16"
  then show "CreateContext mKey mSalt profile = Inl MasterKeyLenError"
    by (simp add: CreateContext_def keyLen_def)
next
  assume "length mKey = 16 \<and> length mSalt \<noteq> 14"
  then show "CreateContext mKey mSalt profile = Inl MasterSaltLenError"
    by (simp add: CreateContext_def keyLen_def saltLen_def)
qed

text \<open>Witness for C9: the RFC 3711 master key and salt are accepted; a key of 15 or 17
  bytes and a salt of 13 or 15 bytes are refused.\<close>

theorem CreateContext_lengths_witness:
  "(\<exists>c. CreateContext rfcMasterKey rfcMasterSalt [] = Inr c
         \<and> masterKey c = rfcMasterKey \<and> masterSalt c = rfcMasterSalt
         \<and> length (sessionKey c) = 16 \<and> length (sessionSalt c) = 14
         \<and> block c = Some (expandKeyGo (sessionKey c))
         \<and> ssrc c = 0 \<and> rolloverCounter c = 0 \<and> \<not> rolloverHasProcessed c)
   \<and> CreateContext (butlast rfcMasterKey) rfcMasterSalt [] = Inl MasterKeyLenError
   \<and> CreateContext (rfcMasterKey @ [0]) rfcMasterSalt [] = Inl MasterKeyLenError
   \<and> CreateContext rfcMasterKey (butlast rfcMasterSalt) [] = Inl MasterSaltLenError
   \<and> CreateContext rfcMasterKey (rfcMasterSalt @ [0]) [] = Inl MasterSaltLenError"
  using CreateContext_lengths [of rfcMasterKey rfcMasterSalt "[]"]
    CreateContext_lengths [of "butlast rfcMasterKey" rfcMasterSalt "[]"]
    CreateContext_lengths [of "rfcMasterKey @ [0]" rfcMasterSalt "[]"]
    CreateContext_lengths [of rfcMasterKey "butlast rfcMasterSalt" "[]"]
    CreateContext_lengths [of rfcMasterKey "rfcMasterSalt @ [0]" "[]"]
  by (simp add: rfcMasterKey_length rfcMasterSalt_length)

text \<open>The context that \<^verbatim>\<open>CreateContext\<close> returns on the RFC 3711 master key and salt is
  \<open>rfcSession\<close>, the context of the witnesses below.\<close>

lemma rfcSessionKey_length: "length rfcSessionKey = 16"
  by (simp add: rfcSessionKey_def)

lemma rfcSessionSchedule_length: "length rfcSessionSchedule = 44"
  by (simp add: rfcSessionSchedule_def)

lemma rfc_session_expandKeyGo: "expandKeyGo rfcSessionKey = rfcSessionSchedule"
  unfolding expandKeyGo_16 [OF rfcSessionKey_length] rfcSessionSchedule_def
  by (simp add: rfcSessionKey_def aes_eval)

lemma rfc_NewCipher: "NewCipher (sessionKey rfcSession) = Inr rfcSessionSchedule"
  by (simp add: rfcSession_def NewCipher_def rfcSessionKey_length rfc_session_expandKeyGo)

lemma rfc_CreateContext: "CreateContext rfcMasterKey rfcMasterSalt [] = Inr rfcSession"
  unfolding CreateContext_value [OF rfcMasterKey_length rfcMasterSalt_length]
    rfc_expandKeyGo rfc_cipher_key rfc_cipher_salt
  by (simp add: rfcSession_def rfcSessionKey_def rfcSessionSalt_def rfc_session_expandKeyGo [unfolded rfcSessionKey_def])

lemma rfcSession_fields:
  "ssrc rfcSession = 0" "rolloverCounter rfcSession = 0" "\<not> rolloverHasProcessed rfcSession"
  "block rfcSession = Some rfcSessionSchedule" "length (sessionSalt rfcSession) = 14"
  by (simp_all add: rfcSession_def zeroContext_def rfcSessionSalt_def)

section \<open>Properties of the rollover tracker\<close>

text \<open>C2: for every prior tracker state and every incoming sequence number,
  \<^verbatim>\<open>updateRolloverCount\<close> gives the counter of the four-branch decision table (with
  \<open>D = 100\<close> and \<open>MAX = 65535\<close>), marks the tracker initialised, sets
  \<^verbatim>\<open>lastSequenceNumber\<close> to the incoming number in every case, and touches no other
  field.\<close>

theorem updateRolloverCount_decision_table:
  "updateRolloverCount c seq =
     c\<lparr>rolloverCounter :=
          rocDecisionTable (rolloverCounter c) (rolloverHasProcessed c) (lastSequenceNumber c) seq,
       rolloverHasProcessed := True,
       lastSequenceNumber := seq\<rparr>"
  by (simp add: updateRolloverCount_def rocDecisionTable_def Let_def
      maxROCDisorder_def maxSequenceNumber_def)

lemma updateRolloverCount_fields:
  "ssrc (updateRolloverCount c s) = ssrc c"
  "block (updateRolloverCount c s) = block c"
  "sessionSalt (updateRolloverCount c s) = sessionSalt c"
  "sessionKey (updateRolloverCount c s) = sessionKey c"
  by (simp_all add: updateRolloverCount_def Let_def)

lemma updateRolloverCount_ssrc_update:
  "rolloverCounter (updateRolloverCount (c\<lparr>ssrc := x\<rparr>) s) = rolloverCounter (updateRolloverCount c s)"
  by (simp add: updateRolloverCount_def Let_def)

lemma rolloverTrace_append:
  "rolloverTrace c (xs @ ys) = rolloverTrace c xs @ rolloverTrace (feedSequence c xs) ys"
  by (induction xs arbitrary: c) (simp_all add: Let_def)

lemma feedSequence_append:
  "feedSequence c (xs @ ys) = feedSequence (feedSequence c xs) ys"
  by (induction xs arbitrary: c) simp_all

lemma update_successor:
  assumes "rolloverHasProcessed c" and "unat (lastSequenceNumber c) + 1 = a" and "a < 65536"
  shows "updateRolloverCount c (word_of_nat a) = c\<lparr>lastSequenceNumber := word_of_nat a\<rparr>"
proof -
  have ua: "unat (word_of_nat a :: 16 word) = a"
    using assms(3) by (simp add: unat_of_nat)
  have nz: "(word_of_nat a :: 16 word) \<noteq> 0"
    using ua assms(2) by (metis Suc_eq_plus1 nat.simps(3) unat_0 add.commute)
  show ?thesis
    using assms ua nz
    by (auto simp: updateRolloverCount_def Let_def maxROCDisorder_def maxSequenceNumber_def)
qed

lemma consecutive_run:
  assumes "rolloverHasProcessed c" and "unat (lastSequenceNumber c) + 1 = a" and "a + n \<le> 65536"
  shows "rolloverTrace c (map word_of_nat [a..<a + n]) = replicate n (rolloverCounter c)
       \<and> feedSequence c (map word_of_nat [a..<a + n])
           = (if n = 0 then c else c\<lparr>lastSequenceNumber := word_of_nat (a + n - 1)\<rparr>)"
  using assms
proof (induction n arbitrary: c a)
  case 0
  then show ?case by simp
next
  case (Suc n)
  let ?c' = "c\<lparr>lastSequenceNumber := word_of_nat a\<rparr>"
  have a: "a < 65536" using Suc.prems by simp
  have step: "updateRolloverCount c (word_of_nat a) = ?c'"
    using update_successor [OF Suc.prems(1,2) a] .
  have ua: "unat (word_of_nat a :: 16 word) = a"
    using a by (simp add: unat_of_nat)
  have ih: "rolloverTrace ?c' (map word_of_nat [Suc a..<Suc a + n]) = replicate n (rolloverCounter ?c')
       \<and> feedSequence ?c' (map word_of_nat [Suc a..<Suc a + n])
           = (if n = 0 then ?c' else ?c'\<lparr>lastSequenceNumber := word_of_nat (Suc a + n - 1)\<rparr>)"
    using Suc.prems ua by (intro Suc.IH) simp_all
  have split: "[a..<a + Suc n] = a # [Suc a..<Suc a + n]"
    by (simp add: upt_conv_Cons)
  show ?case
    unfolding split using ih step by (simp add: Let_def)
qed

lemma first_epoch:
  assumes "\<not> rolloverHasProcessed c" and "n < 65536"
  shows "rolloverTrace c (map word_of_nat [0..<Suc n]) = replicate (Suc n) (rolloverCounter c)
       \<and> feedSequence c (map word_of_nat [0..<Suc n])
           = c\<lparr>rolloverHasProcessed := True, lastSequenceNumber := word_of_nat n\<rparr>"
proof -
  let ?c1 = "c\<lparr>rolloverHasProcessed := True, lastSequenceNumber := 0\<rparr>"
  have first: "updateRolloverCount c 0 = ?c1"
    using assms(1) by (simp add: updateRolloverCount_def Let_def)
  have run: "rolloverTrace ?c1 (map word_of_nat [1..<1 + n]) = replicate n (rolloverCounter ?c1)
       \<and> feedSequence ?c1 (map word_of_nat [1..<1 + n])
           = (if n = 0 then ?c1 else ?c1\<lparr>lastSequenceNumber := word_of_nat (1 + n - 1)\<rparr>)"
    using assms(2) by (intro consecutive_run) simp_all
  have split: "[0..<Suc n] = 0 # [1..<1 + n]"
    by (simp add: upt_conv_Cons)
  show ?thesis
    unfolding split using first run by (simp add: Let_def)
qed

lemma second_epoch:
  assumes "rolloverHasProcessed c" and "lastSequenceNumber c = 65535"
  shows "rolloverTrace c [0, 1] = [rolloverCounter c + 1, rolloverCounter c + 1]"
  using assms
  by (simp add: updateRolloverCount_def Let_def maxROCDisorder_def maxSequenceNumber_def)

text \<open>C6: starting from a context with \<^verbatim>\<open>rolloverCounter = 0\<close> and an uninitialised
  tracker, and feeding the sequence numbers \<open>0, 1, ..., 65535, 0, 1\<close> in that order,
  the counter is 0 after each of the first 65536 calls, becomes 1 on the call that
  processes the second 0, and is still 1 after the last call: it is incremented exactly
  once, at the second 0.\<close>

theorem rollover_once_at_second_zero:
  assumes "\<not> rolloverHasProcessed c" and "rolloverCounter c = 0"
  shows "rolloverTrace c (map word_of_nat [0..<65536] @ [0, 1]) = replicate 65536 0 @ [1, 1]"
proof -
  define n :: nat where "n = 65535"
  define c2 where "c2 = c\<lparr>rolloverHasProcessed := True, lastSequenceNumber := word_of_nat n\<rparr>"
  have n: "n < 65536" and N: "65536 = Suc n"
    by (simp_all add: n_def)
  have last: "lastSequenceNumber c2 = 65535" and proc: "rolloverHasProcessed c2"
    and roc: "rolloverCounter c2 = 0"
    by (simp_all add: c2_def n_def assms(2))
  have head: "rolloverTrace c (map word_of_nat [0..<Suc n]) = replicate (Suc n) 0"
    and feed: "feedSequence c (map word_of_nat [0..<Suc n]) = c2"
    using first_epoch [OF assms(1) n] assms(2) by (simp_all only: c2_def)
  have tail: "rolloverTrace c2 [0, 1] = [1, 1]"
    using second_epoch [OF proc last] roc by simp
  show ?thesis
    unfolding N by (simp only: rolloverTrace_append head feed tail)
qed

text \<open>Witness for C6: the freshly created context \<open>rfcSession\<close>.\<close>

theorem rollover_once_at_second_zero_witness:
  "\<not> rolloverHasProcessed rfcSession \<and> rolloverCounter rfcSession = 0
   \<and> rolloverTrace rfcSession (map word_of_nat [0..<65536] @ [0, 1]) = replicate 65536 0 @ [1, 1]"
proof -
  have fresh: "\<not> rolloverHasProcessed rfcSession" and zero: "rolloverCounter rfcSession = 0"
    by (simp_all add: rfcSession_fields)
  from fresh zero rollover_once_at_second_zero [OF fresh zero] show ?thesis
    by blast
qed

section \<open>Properties of the counter block\<close>

lemma be_seq_hi: "(ucast (drop_bit 24 (push_bit 16 (ucast (s :: 16 word) :: 32 word))) :: byte) = ucast (drop_bit 8 s)"
  by (rule bit_word_eqI) (auto simp: bit_simps)
lemma be_seq_lo: "(ucast (drop_bit 16 (push_bit 16 (ucast (s :: 16 word) :: 32 word))) :: byte) = ucast s"
  by (rule bit_word_eqI) (auto simp: bit_simps)
lemma be_seq_z1: "(ucast (drop_bit 8 (push_bit 16 (ucast (s :: 16 word) :: 32 word))) :: byte) = 0"
  by (rule bit_word_eqI) (auto simp: bit_simps)
lemma be_seq_z0: "(ucast (push_bit 16 (ucast (s :: 16 word) :: 32 word)) :: byte) = 0"
  by (rule bit_word_eqI) (auto simp: bit_simps)

text \<open>C4: for a session salt of 14 bytes, the counter block is, big-endian, four zero
  bytes, the stream identifier in bytes 4-7, the rollover counter in bytes 8-11 and the
  sequence number in bytes 12-13, these first 14 bytes xored byte for byte with the
  session salt, followed by the two zero bytes 14-15, which the salt does not reach.\<close>

theorem generateCounter_layout:
  assumes "length (sessionSalt c) = 14"
  shows "generateCounter c seq =
     Inr (map2 (XOR)
            [0, 0, 0, 0,
             ucast (drop_bit 24 (ssrc c)), ucast (drop_bit 16 (ssrc c)),
             ucast (drop_bit 8 (ssrc c)), ucast (ssrc c),
             ucast (drop_bit 24 (rolloverCounter c)), ucast (drop_bit 16 (rolloverCounter c)),
             ucast (drop_bit 8 (rolloverCounter c)), ucast (rolloverCounter c),
             ucast (drop_bit 8 seq), ucast seq]
            (sessionSalt c)
          @ [0, 0])"
proof -
  obtain a0 a1 a2 a3 a4 a5 a6 a7 a8 a9 a10 a11 a12 a13
    where salt: "sessionSalt c = [a0, a1, a2, a3, a4, a5, a6, a7, a8, a9, a10, a11, a12, a13]"
    using assms by (rule length14)
  show ?thesis
    unfolding generateCounter_def Let_def salt replicate16 PutUint32_def
    by (simp add: be_seq_hi be_seq_lo be_seq_z1 be_seq_z0)
qed

lemma rfc_generateCounter:
  "generateCounter (rfcSession\<lparr>ssrc := 1000, rolloverCounter := 0\<rparr>) 5 = Inr wireCounter"
  unfolding generateCounter_def Let_def replicate16
  by (simp add: PutUint32_def rfcSession_def rfcSessionSalt_def wireCounter_def)

text \<open>Witness for C4: stream 1000, rollover counter 258 and sequence number 5 under the
  session salt of \<open>rfcSession\<close>.\<close>

theorem generateCounter_layout_witness:
  "length (sessionSalt rfcSession) = 14
   \<and> generateCounter (rfcSession\<lparr>ssrc := 1000, rolloverCounter := 258\<rparr>) 5 =
       Inr [0x30, 0xcb, 0xbc, 0x08, 0x86, 0x3d, 0x8f, 0x6d,
            0xd4, 0x9d, 0xb2, 0x48, 0x9a, 0xe4, 0x00, 0x00]"
proof -
  have salt: "length (sessionSalt (rfcSession\<lparr>ssrc := 1000, rolloverCounter := 258\<rparr>)) = 14"
    by (simp add: rfcSession_fields)
  show ?thesis
    using generateCounter_layout [OF salt, of 5]
    by (simp add: rfcSession_def rfcSessionSalt_def)
qed

lemma word32_bytes_eq:
  fixes v w :: "32 word"
  assumes "(ucast (drop_bit 24 v) :: byte) = ucast (drop_bit 24 w)"
    and "(ucast (drop_bit 16 v) :: byte) = ucast (drop_bit 16 w)"
    and "(ucast (drop_bit 8 v) :: byte) = ucast (drop_bit 8 w)"
    and "(ucast v :: byte) = ucast w"
  shows "v = w"
proof (rule bit_word_eqI)
  fix n :: nat
  assume "n < LENGTH(32)"
  then have n: "n < 32" by simp
  have b3: "bit (ucast (drop_bit 24 x) :: byte) (n - 24) = bit x n" if "24 \<le> n" for x :: "32 word"
    using that n by (auto simp: bit_simps)
  have b2: "bit (ucast (drop_bit 16 x) :: byte) (n - 16) = bit x n" if "16 \<le> n" "n < 24" for x :: "32 word"
    using that by (auto simp: bit_simps)
  have b1: "bit (ucast (drop_bit 8 x) :: byte) (n - 8) = bit x n" if "8 \<le> n" "n < 16" for x :: "32 word"
    using that by (auto simp: bit_simps)
  have b0: "bit (ucast x :: byte) n = bit x n" if "n < 8" for x :: "32 word"
    using that by (auto simp: bit_simps)
  consider "24 \<le> n" | "16 \<le> n" "n < 24" | "8 \<le> n" "n < 16" | "n < 8"
    by linarith
  then show "bit v n = bit w n"
  proof cases
    case 1
    then show ?thesis using b3 [of v] b3 [of w] assms(1) by simp
  next
    case 2
    then show ?thesis using b2 [of v] b2 [of w] assms(2) by simp
  next
    case 3
    then show ?thesis using b1 [of v] b1 [of w] assms(3) by simp
  next
    case 4
    then show ?thesis using b0 [of v] b0 [of w] assms(4) by simp
  qed
qed

lemma word16_bytes_eq:
  fixes v w :: "16 word"
  assumes "(ucast (drop_bit 8 v) :: byte) = ucast (drop_bit 8 w)"
    and "(ucast v :: byte) = ucast w"
  shows "v = w"
proof (rule bit_word_eqI)
  fix n :: nat
  assume "n < LENGTH(16)"
  then have n: "n < 16" by simp
  have b1: "bit (ucast (drop_bit 8 x) :: byte) (n - 8) = bit x n" if "8 \<le> n" for x :: "16 word"
    using that n by (auto simp: bit_simps)
  have b0: "bit (ucast x :: byte) n = bit x n" if "n < 8" for x :: "16 word"
    using that by (auto simp: bit_simps)
  show "bit v n = bit w n"
  proof (cases "8 \<le> n")
    case True
    then show ?thesis using b1 [of v] b1 [of w] assms(1) by simp
  next
    case False
    then show ?thesis using b0 [of v] b0 [of w] assms(2) by simp
  qed
qed

lemma xorSaltFrom_length:
  "xorSaltFrom i salt a = Inr b \<Longrightarrow> length b = length a"
  by (induction salt arbitrary: i a) (auto split: if_splits)

lemma xorSaltFrom_returns:
  "i + length salt \<le> length counter \<Longrightarrow> \<exists>b. xorSaltFrom i salt counter = Inr b"
  by (induction salt arbitrary: i counter) simp_all

lemma generateCounter_length:
  "generateCounter c seq = Inr iv \<Longrightarrow> length iv = 16"
  by (auto simp: generateCounter_def Let_def PutUint32_def dest: xorSaltFrom_length)

lemma generateCounter_returns:
  "length (sessionSalt c) \<le> 16 \<Longrightarrow> \<exists>iv. generateCounter c seq = Inr iv"
  unfolding generateCounter_def Let_def
  by (rule xorSaltFrom_returns) (simp add: PutUint32_def)

lemma generateCounter_fields:
  "ssrc a = ssrc b \<Longrightarrow> rolloverCounter a = rolloverCounter b \<Longrightarrow> sessionSalt a = sessionSalt b
   \<Longrightarrow> generateCounter a s = generateCounter b s"
  by (simp add: generateCounter_def)

lemma xor_update_inj:
  fixes a a' :: bytes
  assumes "a[i := a ! i XOR s] = a'[i := a' ! i XOR s]" and "length a = length a'" and "i < length a"
  shows "a = a'"
proof (rule nth_equalityI)
  show "length a = length a'" by (rule assms(2))
next
  fix j assume j: "j < length a"
  have "(a[i := a ! i XOR s]) ! j = (a'[i := a' ! i XOR s]) ! j"
    using assms(1) by simp
  moreover have "(x XOR s) XOR s = x" for x :: byte
    by (simp add: xor.assoc)
  ultimately show "a ! j = a' ! j"
    using j assms(2,3) by (cases "j = i") (auto, metis)
qed

lemma xorSaltFrom_inj:
  "xorSaltFrom i salt a = Inr b \<Longrightarrow> xorSaltFrom i salt a' = Inr b \<Longrightarrow> length a = length a'
   \<Longrightarrow> a = a'"
proof (induction salt arbitrary: i a a')
  case Nil
  then show ?case by simp
next
  case (Cons s salt)
  from Cons.prems have i: "i < length a" "i < length a'"
    by (auto split: if_splits)
  with Cons.prems have "a[i := a ! i XOR s] = a'[i := a' ! i XOR s]"
    by (intro Cons.IH [of "Suc i"]) simp_all
  then show ?case
    using Cons.prems(3) i(1) by (rule xor_update_inj)
qed

text \<open>C3: for a fixed stream identifier and a fixed session salt (the context \<open>c\<close>),
  the counter block determines the pair of rollover counter and sequence number: if two
  pairs give the same block, the pairs are equal.\<close>

theorem generateCounter_injective:
  assumes "generateCounter (c\<lparr>rolloverCounter := roc1\<rparr>) seq1 = Inr b"
    and "generateCounter (c\<lparr>rolloverCounter := roc2\<rparr>) seq2 = Inr b"
  shows "roc1 = roc2 \<and> seq1 = seq2"
proof -
  let ?blk = "\<lambda>roc seq. PutUint32 (PutUint32 (PutUint32 (replicate 16 0) 4 (ssrc c)) 8 roc) 12
                  (push_bit 16 (ucast (seq :: 16 word)))"
  have "xorSaltFrom 0 (sessionSalt c) (?blk roc1 seq1) = Inr b"
    and "xorSaltFrom 0 (sessionSalt c) (?blk roc2 seq2) = Inr b"
    using assms by (simp_all add: generateCounter_def Let_def)
  moreover have "length (?blk roc1 seq1) = length (?blk roc2 seq2)"
    by (simp add: PutUint32_def)
  ultimately have "?blk roc1 seq1 = ?blk roc2 seq2"
    by (rule xorSaltFrom_inj)
  then have bytes: "(ucast (drop_bit 24 roc1) :: byte) = ucast (drop_bit 24 roc2)"
      "(ucast (drop_bit 16 roc1) :: byte) = ucast (drop_bit 16 roc2)"
      "(ucast (drop_bit 8 roc1) :: byte) = ucast (drop_bit 8 roc2)"
      "(ucast roc1 :: byte) = ucast roc2"
      "(ucast (drop_bit 8 seq1) :: byte) = ucast (drop_bit 8 seq2)"
      "(ucast seq1 :: byte) = ucast seq2"
    unfolding replicate16 PutUint32_def by (simp_all add: be_seq_hi be_seq_lo)
  show ?thesis
    using bytes by (intro conjI word32_bytes_eq word16_bytes_eq)
qed

text \<open>Witness for C3: the block of stream 1000 at rollover counter 0 and sequence number
  5 is \<open>wireCounter\<close>, and neither rollover counter 1 nor sequence number 6 gives that
  block.\<close>

theorem generateCounter_injective_witness:
  "generateCounter (rfcSession\<lparr>ssrc := 1000, rolloverCounter := 0\<rparr>) 5 = Inr wireCounter
   \<and> generateCounter (rfcSession\<lparr>ssrc := 1000, rolloverCounter := 1\<rparr>) 5 \<noteq> Inr wireCounter
   \<and> generateCounter (rfcSession\<lparr>ssrc := 1000, rolloverCounter := 0\<rparr>) 6 \<noteq> Inr wireCounter"
proof -
  let ?c = "rfcSession\<lparr>ssrc := 1000\<rparr>"
  have here: "generateCounter (?c\<lparr>rolloverCounter := 0\<rparr>) 5 = Inr wireCounter"
    using rfc_generateCounter by simp
  have same: "(0 :: 32 word) = 0 \<and> (5 :: 16 word) = 5"
    using generateCounter_injective [OF here here] .
  have "generateCounter (?c\<lparr>rolloverCounter := 1\<rparr>) 5 \<noteq> Inr wireCounter"
  proof
    assume "generateCounter (?c\<lparr>rolloverCounter := 1\<rparr>) 5 = Inr wireCounter"
    then have "(1 :: 32 word) = 0 \<and> (5 :: 16 word) = 5"
      using here by (rule generateCounter_injective)
    then show False by simp
  qed
  moreover have "generateCounter (?c\<lparr>rolloverCounter := 0\<rparr>) 6 \<noteq> Inr wireCounter"
  proof
    assume "generateCounter (?c\<lparr>rolloverCounter := 0\<rparr>) 6 = Inr wireCounter"
    then have "(0 :: 32 word) = 0 \<and> (6 :: 16 word) = 5"
      using here by (rule generateCounter_injective)
    then show False by simp
  qed
  ultimately show ?thesis
    using here same by simp
qed

section \<open>Counter mode and slices\<close>

text \<open>Counter mode on the test vector of RFC 3711, appendix B.2: the model gives the
  first 40 bytes of the key stream that the RFC lists. The increment carries from the
  last byte towards the first and wraps around.\<close>

lemma cmKey_length: "length cmKey = 16"
  by (simp add: cmKey_def)

lemma cmSchedule_length: "length cmSchedule = 44"
  by (simp add: cmSchedule_def)

lemma cm_expandKeyGo: "expandKeyGo cmKey = cmSchedule"
  unfolding expandKeyGo_16 [OF cmKey_length] cmSchedule_def
  by (simp add: cmKey_def aes_eval)

lemma cm_blocks:
  "encryptBlockGo cmSchedule cmCounter =
     [0xe0, 0x3e, 0xad, 0x09, 0x35, 0xc9, 0x5e, 0x80,
     0xe1, 0x66, 0xb1, 0x6d, 0xd9, 0x2b, 0x4e, 0xb4]"
  "encryptBlockGo cmSchedule (incCounter cmCounter) =
     [0xd2, 0x35, 0x13, 0x16, 0x2b, 0x02, 0xd0, 0xf7,
     0x2a, 0x43, 0xa2, 0xfe, 0x4a, 0x5f, 0x97, 0xab]"
  "encryptBlockGo cmSchedule (incCounter (incCounter cmCounter)) =
     [0x41, 0xe9, 0x5b, 0x3b, 0xb0, 0xa2, 0xe8, 0xdd,
     0x47, 0x79, 0x01, 0xe4, 0xfc, 0xa8, 0x94, 0xc0]"
  unfolding encryptBlockGo_44 [OF cmSchedule_length]
  unfolding cmSchedule_def cmCounter_def incCounter_def
  by (simp_all add: aes_eval)

lemma cm_keystream:
  "NewCipher cmKey = Inr cmSchedule"
  "XORKeyStream (cmSchedule, cmCounter) (replicate 40 0) =
     [0xe0, 0x3e, 0xad, 0x09, 0x35, 0xc9, 0x5e, 0x80,
     0xe1, 0x66, 0xb1, 0x6d, 0xd9, 0x2b, 0x4e, 0xb4,
     0xd2, 0x35, 0x13, 0x16, 0x2b, 0x02, 0xd0, 0xf7,
     0x2a, 0x43, 0xa2, 0xfe, 0x4a, 0x5f, 0x97, 0xab,
     0x41, 0xe9, 0x5b, 0x3b, 0xb0, 0xa2, 0xe8, 0xdd]"
proof -
  show "NewCipher cmKey = Inr cmSchedule"
    by (simp add: NewCipher_def cmKey_length cm_expandKeyGo)
  have zeros: "replicate 40 (0::byte) =
      [0, 0, 0, 0, 0, 0, 0, 0, 0, 0, 0, 0, 0, 0, 0, 0, 0, 0, 0, 0,
       0, 0, 0, 0, 0, 0, 0, 0, 0, 0, 0, 0, 0, 0, 0, 0, 0, 0, 0, 0]"
    by (simp add: numeral_eq_Suc)
  show "XORKeyStream (cmSchedule, cmCounter) (replicate 40 0) =
     [0xe0, 0x3e, 0xad, 0x09, 0x35, 0xc9, 0x5e, 0x80,
     0xe1, 0x66, 0xb1, 0x6d, 0xd9, 0x2b, 0x4e, 0xb4,
     0xd2, 0x35, 0x13, 0x16, 0x2b, 0x02, 0xd0, 0xf7,
     0x2a, 0x43, 0xa2, 0xfe, 0x4a, 0x5f, 0x97, 0xab,
     0x41, 0xe9, 0x5b, 0x3b, 0xb0, 0xa2, 0xe8, 0xdd]"
    unfolding zeros
    by (simp add: XORKeyStream_Cons XORKeyStream_Nil cm_blocks xorBytes_def)
qed

lemma incCounter_carry:
  "incCounter [0x00, 0x01, 0xff, 0xff] = [0x00, 0x02, 0x00, 0x00]"
  "incCounter [0xff, 0xff, 0xff, 0xff] = [0x00, 0x00, 0x00, 0x00]"
  by (simp_all add: incCounter_def)

lemma xorBytes_twice:
  "length a \<le> length k \<Longrightarrow> xorBytes (xorBytes a k) k = a"
proof (induction a arbitrary: k)
  case Nil
  then show ?case by (simp add: xorBytes_def)
next
  case (Cons x a)
  then obtain y k' where k: "k = y # k'"
    by (cases k) auto
  have "(x XOR y) XOR y = x"
    by (simp add: xor.assoc)
  then show ?case
    using Cons unfolding k by (simp add: xorBytes_def)
qed

lemma length_XORKeyStream:
  assumes "\<And>ctr. length (encryptBlockGo xk ctr) = 16"
  shows "length (XORKeyStream (xk, ctr) src) = length src"
proof (induction "(xk, ctr)" src arbitrary: ctr rule: XORKeyStream.induct)
  case (1 ctr src)
  show ?case
  proof (cases "src = []")
    case True
    then show ?thesis by (simp add: XORKeyStream.simps)
  next
    case False
    then have "length (XORKeyStream (xk, incCounter ctr) (drop 16 src)) = length (drop 16 src)"
      by (rule "1.hyps")
    then show ?thesis
      using False assms by (subst XORKeyStream.simps) (simp add: length_xorBytes)
  qed
qed

lemma XORKeyStream_twice:
  assumes "\<And>ctr. length (encryptBlockGo xk ctr) = 16"
  shows "XORKeyStream (xk, ctr) (XORKeyStream (xk, ctr) src) = src"
proof (induction "(xk, ctr)" src arbitrary: ctr rule: XORKeyStream.induct)
  case (1 ctr src)
  show ?case
  proof (cases "src = []")
    case True
    then show ?thesis by (simp add: XORKeyStream.simps)
  next
    case False
    define first where "first = xorBytes (take 16 src) (encryptBlockGo xk ctr)"
    define rest where "rest = XORKeyStream (xk, incCounter ctr) (drop 16 src)"
    have out: "XORKeyStream (xk, ctr) src = first @ rest"
      using False by (subst XORKeyStream.simps) (simp add: first_def rest_def)
    have lf: "length first = min 16 (length src)"
      by (simp add: first_def length_xorBytes assms)
    have lr: "length rest = length src - 16"
      by (simp add: rest_def length_XORKeyStream [OF assms])
    have t: "take 16 (first @ rest) = first" and d: "drop 16 (first @ rest) = rest"
    proof -
      show "take 16 (first @ rest) = first"
        using lf lr by (cases "16 \<le> length src") simp_all
      show "drop 16 (first @ rest) = rest"
        using lf lr by (cases "16 \<le> length src") simp_all
    qed
    have "0 < length first"
      using False lf by (cases src) simp_all
    then have ne: "first @ rest \<noteq> []"
      by auto
    have ih: "XORKeyStream (xk, incCounter ctr) rest = drop 16 src"
      unfolding rest_def using False by (rule "1.hyps")
    have restored: "xorBytes first (encryptBlockGo xk ctr) = take 16 src"
      unfolding first_def by (rule xorBytes_twice) (simp add: assms)
    have "XORKeyStream (xk, ctr) (first @ rest) =
            xorBytes (take 16 (first @ rest)) (encryptBlockGo xk ctr)
            @ XORKeyStream (xk, incCounter ctr) (drop 16 (first @ rest))"
      by (subst XORKeyStream.simps) (simp only: ne if_False)
    also have "\<dots> = take 16 src @ drop 16 src"
      by (simp only: t d ih restored)
    finally show ?thesis
      by (simp add: out)
  qed
qed

lemma rfc_keystream:
  "encryptBlockGo rfcSessionSchedule wireCounter =
     [0x0d, 0x05, 0x98, 0x65, 0x32, 0xd0, 0x3e, 0xb7, 0x9d, 0xee, 0xe5, 0xb5, 0x5b, 0x54, 0xcc, 0x54]"
  "encryptBlockGo rfcSessionSchedule (incCounter wireCounter) =
     [0x98, 0xd1, 0x52, 0x7c, 0x44, 0x81, 0x63, 0x2c, 0x96, 0x10, 0xd8, 0xed, 0x5f, 0x21, 0xb8, 0x9b]"
  unfolding encryptBlockGo_44 [OF rfcSessionSchedule_length]
  unfolding rfcSessionSchedule_def wireCounter_def incCounter_def
  by (simp_all add: aes_eval)

lemma rfc_wireCipher:
  "XORKeyStream (rfcSessionSchedule, wireCounter) (wirePlain @ replicate 10 0) = wireCipher"
proof -
  have data: "wirePlain @ replicate 10 0 =
      [0x53, 0x52, 0x54, 0x50, 0x20, 0x74, 0x65, 0x73, 0x74, 0x20, 0x70, 0x61, 0x63, 0x6b, 0x65, 0x74,
       0, 0, 0, 0, 0, 0, 0, 0, 0, 0]"
    by (simp add: wirePlain_def numeral_eq_Suc)
  show ?thesis
    unfolding data
    by (simp add: XORKeyStream_Cons XORKeyStream_Nil rfc_keystream xorBytes_def wireCipher_def)
qed

lemma length_sliceRead:
  "sliceOK h s \<Longrightarrow> length (sliceRead h s) = len s"
  by (auto simp: sliceOK_def sliceRead_def)

lemma read_after_write:
  assumes "a < length h" and "i \<le> length (h ! a)" and "n \<le> length xs"
  shows "take n (drop i (arrayWrite h a i xs ! a)) = take n xs"
  using assms by (simp add: arrayWrite_def)

lemma write_other_array:
  "a \<noteq> b \<Longrightarrow> arrayWrite h a i xs ! b = h ! b"
  by (simp add: arrayWrite_def)

lemma length_arrayWrite: "length (arrayWrite h a i xs) = length h"
  by (simp add: arrayWrite_def)

lemma appendSlice_keeps_content:
  assumes a: "a < length h" and s: "s \<le> length (h ! a)"
    and xs: "take (length xs) (drop s (h ! a)) = xs"
    and layout: "arr r \<noteq> a \<or> s = start r + len r"
  shows "take (length xs) (drop s (snd (appendSlice h r xs) ! a)) = xs"
proof (cases "len r + length xs \<le> cap r")
  case fits: True
  show ?thesis
  proof (cases "arr r = a")
    case True
    then have "s = start r + len r"
      using layout by simp
    then show ?thesis
      using fits True read_after_write [OF a s, of "length xs" xs]
      by (simp add: appendSlice_def)
  next
    case False
    then show ?thesis
      using fits xs by (simp add: appendSlice_def write_other_array)
  qed
next
  case False
  then show ?thesis
    using a xs by (simp add: appendSlice_def nth_append)
qed

lemma wirePacket_fields:
  "SSRC (wirePacket ident seq) = ident" "SequenceNumber (wirePacket ident seq) = seq"
  "len (Payload (wirePacket ident seq)) = 26" "cap (Payload (wirePacket ident seq)) = 26"
  "start (Payload (wirePacket ident seq)) = 12" "arr (Payload (wirePacket ident seq)) = 0"
  "cap (Raw (wirePacket ident seq)) = 38" "start (Raw (wirePacket ident seq)) = 0"
  "arr (Raw (wirePacket ident seq)) = 0"
  "PayloadOffset (wirePacket ident seq) = 12"
  by (simp_all add: wirePacket_def)

section \<open>Properties of decryption\<close>

text \<open>The accepted path of \<^verbatim>\<open>DecryptPacket\<close>, once the counter block is known and the
  cipher is present: only the two slice expressions can still panic.\<close>

lemma DecryptPacket_accepted:
  assumes acc: "ssrc c = 0 \<or> ssrc c = SSRC packet"
    and blk: "block c = Some xk"
    and ctr: "generateCounter (updateRolloverCount (c\<lparr>ssrc := SSRC packet\<rparr>) (SequenceNumber packet))
                (SequenceNumber packet) = Inr counter"
  shows "DecryptPacket c packet h =
     (case sliceTo (Payload packet) (int (len (Payload packet)) - 10) of
        Inl e \<Rightarrow> Inl e
      | Inr payload \<Rightarrow>
        (case sliceTo (Raw packet) (PayloadOffset packet) of
           Inl e \<Rightarrow> Inl e
         | Inr raw \<Rightarrow>
             Inr (True,
                  updateRolloverCount (c\<lparr>ssrc := SSRC packet\<rparr>) (SequenceNumber packet),
                  packet\<lparr>Payload := payload,
                         Raw := fst (appendSlice
                           (arrayWrite h (arr (Payload packet)) (start (Payload packet))
                              (XORKeyStream (xk, counter) (sliceRead h (Payload packet))))
                           raw
                           (sliceRead
                              (arrayWrite h (arr (Payload packet)) (start (Payload packet))
                                 (XORKeyStream (xk, counter) (sliceRead h (Payload packet))))
                              payload))\<rparr>,
                  snd (appendSlice
                           (arrayWrite h (arr (Payload packet)) (start (Payload packet))
                              (XORKeyStream (xk, counter) (sliceRead h (Payload packet))))
                           raw
                           (sliceRead
                              (arrayWrite h (arr (Payload packet)) (start (Payload packet))
                                 (XORKeyStream (xk, counter) (sliceRead h (Payload packet))))
                              payload)))))"
proof -
  have iv: "length counter = 16"
    using ctr by (rule generateCounter_length)
  have mismatch: "\<not> (ssrc c \<noteq> 0 \<and> ssrc c \<noteq> SSRC packet)"
    using acc by auto
  show ?thesis
    using mismatch ctr blk iv
    by (simp add: DecryptPacket_def Let_def updateRolloverCount_fields NewCTR_def
          split: sum.splits prod.splits)
qed

lemma DecryptPacket_returns:
  assumes acc: "ssrc c = 0 \<or> ssrc c = SSRC packet"
    and blk: "block c = Some xk"
    and salt: "length (sessionSalt c) \<le> 16"
    and inv: "len (Payload packet) \<le> cap (Payload packet)"
    and size: "10 \<le> len (Payload packet)"
    and off: "0 \<le> PayloadOffset packet" "nat (PayloadOffset packet) \<le> cap (Raw packet)"
  shows "\<exists>packet' h'. DecryptPacket c packet h =
           Inr (True, updateRolloverCount (c\<lparr>ssrc := SSRC packet\<rparr>) (SequenceNumber packet),
                packet', h')
           \<and> Payload packet' = (Payload packet)\<lparr>len := len (Payload packet) - 10\<rparr>"
proof -
  let ?c = "updateRolloverCount (c\<lparr>ssrc := SSRC packet\<rparr>) (SequenceNumber packet)"
  have "length (sessionSalt ?c) \<le> 16"
    using salt by (simp add: updateRolloverCount_fields)
  then obtain counter where ctr: "generateCounter ?c (SequenceNumber packet) = Inr counter"
    using generateCounter_returns by blast
  show ?thesis
    unfolding DecryptPacket_accepted [OF acc blk ctr, of h]
    using inv size off by (simp add: sliceTo_def nat_diff_distrib')
qed

text \<open>C1: when the context is bound to a non-zero stream identifier and the packet's
  identifier differs, \<^verbatim>\<open>DecryptPacket\<close> returns false and leaves the context (with its
  rollover counter, last sequence number, initialised flag and bound identifier), the
  packet (with its payload and raw slices) and the store of the buffers unchanged; and
  it returns false in that case only.\<close>

theorem DecryptPacket_stream_mismatch:
  "(ssrc c \<noteq> 0 \<and> ssrc c \<noteq> SSRC packet \<longrightarrow> DecryptPacket c packet h = Inr (False, c, packet, h))
   \<and> (\<forall>c' packet' h'. DecryptPacket c packet h = Inr (False, c', packet', h')
          \<longrightarrow> ssrc c \<noteq> 0 \<and> ssrc c \<noteq> SSRC packet)"
proof (intro conjI allI impI)
  assume "ssrc c \<noteq> 0 \<and> ssrc c \<noteq> SSRC packet"
  then show "DecryptPacket c packet h = Inr (False, c, packet, h)"
    by (simp add: DecryptPacket_def)
next
  fix c' packet' h'
  assume ret: "DecryptPacket c packet h = Inr (False, c', packet', h')"
  show "ssrc c \<noteq> 0" and "ssrc c \<noteq> SSRC packet"
    using ret
    by (auto simp: DecryptPacket_def Let_def split: if_splits sum.splits prod.splits)
qed

text \<open>Witness for C1: a context bound to stream 1000 and a packet of stream 2000.\<close>

theorem DecryptPacket_stream_mismatch_witness:
  "ssrc (rfcSession\<lparr>ssrc := 1000\<rparr>) \<noteq> 0
   \<and> ssrc (rfcSession\<lparr>ssrc := 1000\<rparr>) \<noteq> SSRC (wirePacket 2000 7)
   \<and> DecryptPacket (rfcSession\<lparr>ssrc := 1000\<rparr>) (wirePacket 2000 7) wireHeap
       = Inr (False, rfcSession\<lparr>ssrc := 1000\<rparr>, wirePacket 2000 7, wireHeap)"
  using DecryptPacket_stream_mismatch [of "rfcSession\<lparr>ssrc := 1000\<rparr>" "wirePacket 2000 7" wireHeap]
  by (simp add: wirePacket_fields)

text \<open>C10: on the accepted path, for a context with its cipher and a session salt of at
  most 16 bytes (as \<^verbatim>\<open>CreateContext\<close> builds it), a payload shorter than 10 bytes makes
  \<^verbatim>\<open>DecryptPacket\<close> panic at the slice expression that removes the tag; a payload of at
  least 10 bytes is trimmed in bounds, and the call returns true with the payload
  shortened by 10 whenever the payload offset lies within the raw buffer's capacity.\<close>

theorem DecryptPacket_payload_bound:
  assumes acc: "ssrc c = 0 \<or> ssrc c = SSRC packet"
    and blk: "block c = Some xk"
    and salt: "length (sessionSalt c) \<le> 16"
    and inv: "len (Payload packet) \<le> cap (Payload packet)"
  shows "(len (Payload packet) < 10 \<longrightarrow>
            DecryptPacket c packet h = Inl (Panic SliceBoundsOutOfRange))
       \<and> (10 \<le> len (Payload packet) \<and> 0 \<le> PayloadOffset packet
            \<and> nat (PayloadOffset packet) \<le> cap (Raw packet) \<longrightarrow>
            (\<exists>c' packet' h'. DecryptPacket c packet h = Inr (True, c', packet', h')
               \<and> Payload packet' = (Payload packet)\<lparr>len := len (Payload packet) - 10\<rparr>))"
proof -
  let ?c = "updateRolloverCount (c\<lparr>ssrc := SSRC packet\<rparr>) (SequenceNumber packet)"
  have "length (sessionSalt ?c) \<le> 16"
    using salt by (simp add: updateRolloverCount_fields)
  then obtain counter where ctr: "generateCounter ?c (SequenceNumber packet) = Inr counter"
    using generateCounter_returns by blast
  note run = DecryptPacket_accepted [OF acc blk ctr, of h]
  show ?thesis
  proof (intro conjI impI)
    assume "len (Payload packet) < 10"
    then show "DecryptPacket c packet h = Inl (Panic SliceBoundsOutOfRange)"
      unfolding run by (simp add: sliceTo_def)
  next
    assume "10 \<le> len (Payload packet) \<and> 0 \<le> PayloadOffset packet
            \<and> nat (PayloadOffset packet) \<le> cap (Raw packet)"
    then show "\<exists>c' packet' h'. DecryptPacket c packet h = Inr (True, c', packet', h')
               \<and> Payload packet' = (Payload packet)\<lparr>len := len (Payload packet) - 10\<rparr>"
      unfolding run using inv by (simp add: sliceTo_def nat_diff_distrib')
  qed
qed

text \<open>Witness for C10: the packet of the test data with its payload cut to 9 bytes
  panics; with its 26 bytes it returns true and leaves a payload of 16 bytes.\<close>

theorem DecryptPacket_payload_bound_witness:
  "DecryptPacket rfcSession
     ((wirePacket 1000 5)\<lparr>Payload := \<lparr>arr = 0, start = 12, len = 9, cap = 26\<rparr>\<rparr>) wireHeap
     = Inl (Panic SliceBoundsOutOfRange)
   \<and> (\<exists>c' packet' h'. DecryptPacket rfcSession (wirePacket 1000 5) wireHeap
          = Inr (True, c', packet', h')
        \<and> Payload packet' = \<lparr>arr = 0, start = 12, len = 16, cap = 26\<rparr>)"
proof -
  let ?short = "(wirePacket 1000 5)\<lparr>Payload := \<lparr>arr = 0, start = 12, len = 9, cap = 26\<rparr>\<rparr>"
  have salt: "length (sessionSalt rfcSession) \<le> 16"
    by (simp add: rfcSession_fields)
  have "DecryptPacket rfcSession ?short wireHeap = Inl (Panic SliceBoundsOutOfRange)"
    using DecryptPacket_payload_bound [of rfcSession ?short rfcSessionSchedule wireHeap] salt
    by (simp add: rfcSession_fields)
  moreover have "\<exists>c' packet' h'. DecryptPacket rfcSession (wirePacket 1000 5) wireHeap
          = Inr (True, c', packet', h')
        \<and> Payload packet' = \<lparr>arr = 0, start = 12, len = 16, cap = 26\<rparr>"
    using DecryptPacket_payload_bound [of rfcSession "wirePacket 1000 5" rfcSessionSchedule wireHeap] salt
    by (simp add: rfcSession_fields wirePacket_def)
  ultimately show ?thesis
    by simp
qed

text \<open>C8: let the cipher of the context be keyed by its session key, and let the payload
  of a packet that the context accepts hold a plaintext followed by a tag placeholder of
  10 bytes, encrypted with the key stream of the counter block for the packet's stream
  identifier and sequence number and the rollover counter \<open>roc\<close>. If the context is in
  the matching state (its tracker gives \<open>roc\<close> for that sequence number), then
  \<^verbatim>\<open>DecryptPacket\<close> returns true and the resulting payload is the plaintext. The
  packet's slices are as the parser leaves them: the payload lies in its array, and it
  either starts at the payload offset of the raw buffer or lives in another array.\<close>

theorem DecryptPacket_round_trip:
  assumes key: "NewCipher (sessionKey c) = Inr xk" and blk: "block c = Some xk"
    and acc: "ssrc c = 0 \<or> ssrc c = SSRC packet"
    and roc: "rolloverCounter (updateRolloverCount c (SequenceNumber packet)) = roc"
    and ctr: "generateCounter (c\<lparr>ssrc := SSRC packet, rolloverCounter := roc\<rparr>)
                (SequenceNumber packet) = Inr counter"
    and tag: "length tag = 10"
    and cipher: "sliceRead h (Payload packet) = XORKeyStream (xk, counter) (plain @ tag)"
    and ok: "sliceOK h (Payload packet)"
    and off: "0 \<le> PayloadOffset packet" "nat (PayloadOffset packet) \<le> cap (Raw packet)"
    and layout: "arr (Raw packet) \<noteq> arr (Payload packet)
                 \<or> start (Payload packet) = start (Raw packet) + nat (PayloadOffset packet)"
  shows "\<exists>c' packet' h'. DecryptPacket c packet h = Inr (True, c', packet', h')
           \<and> sliceRead h' (Payload packet') = plain"
proof -
  let ?c = "updateRolloverCount (c\<lparr>ssrc := SSRC packet\<rparr>) (SequenceNumber packet)"
  let ?P = "Payload packet"
  let ?h1 = "arrayWrite h (arr ?P) (start ?P) (XORKeyStream (xk, counter) (sliceRead h ?P))"
  let ?pl = "?P\<lparr>len := length plain\<rparr>"
  let ?raw = "(Raw packet)\<lparr>len := nat (PayloadOffset packet)\<rparr>"
  have len16: "length (encryptBlockGo xk src) = 16" for src
    using key by (rule NewCipher_block_length)
  have ctr': "generateCounter ?c (SequenceNumber packet) = Inr counter"
    using ctr roc
    generateCounter_fields [of ?c "c\<lparr>ssrc := SSRC packet, rolloverCounter := roc\<rparr>" "SequenceNumber packet"]
    by (simp add: updateRolloverCount_fields updateRolloverCount_ssrc_update)
  have n: "len ?P = length plain + 10"
    using length_sliceRead [OF ok] cipher tag by (simp add: length_XORKeyStream [OF len16])
  have a: "arr ?P < length h" and s: "start ?P \<le> length (h ! arr ?P)"
    and capP: "length plain + 10 \<le> cap ?P"
    using ok n by (simp_all add: sliceOK_def)
  have stream: "XORKeyStream (xk, counter) (sliceRead h ?P) = plain @ tag"
    unfolding cipher using len16 by (rule XORKeyStream_twice)
  have trim: "sliceTo ?P (int (len ?P) - 10) = Inr ?pl"
    using n capP by (simp add: sliceTo_def)
  have cut: "sliceTo (Raw packet) (PayloadOffset packet) = Inr ?raw"
    using off by (simp add: sliceTo_def)
  have a1: "arr ?P < length ?h1"
    using a by (simp add: length_arrayWrite)
  have s1: "start ?P \<le> length (?h1 ! arr ?P)"
    using a s by (simp add: arrayWrite_def)
  have read1: "take (length plain) (drop (start ?P) (?h1 ! arr ?P)) = plain"
    using read_after_write [OF a s, of "length plain" "plain @ tag"] by (simp add: stream)
  then have pl: "sliceRead ?h1 ?pl = plain"
    by (simp add: sliceRead_def)
  have lay: "arr ?raw \<noteq> arr ?P \<or> start ?P = start ?raw + len ?raw"
    using layout by simp
  have "take (length plain) (drop (start ?P) (snd (appendSlice ?h1 ?raw plain) ! arr ?P)) = plain"
    using a1 s1 read1 lay by (rule appendSlice_keeps_content)
  then have final: "sliceRead (snd (appendSlice ?h1 ?raw plain)) ?pl = plain"
    by (simp add: sliceRead_def)
  show ?thesis
    unfolding DecryptPacket_accepted [OF acc blk ctr', of h] trim cut
    using final by (simp add: pl)
qed

text \<open>Witness for C8: the test packet decrypts to \<open>wirePlain\<close> under \<open>rfcSession\<close>.\<close>

theorem DecryptPacket_round_trip_witness:
  "NewCipher (sessionKey rfcSession) = Inr rfcSessionSchedule
   \<and> sliceRead wireHeap (Payload (wirePacket 1000 5))
       = XORKeyStream (rfcSessionSchedule, wireCounter) (wirePlain @ replicate 10 0)
   \<and> (\<exists>c' packet' h'. DecryptPacket rfcSession (wirePacket 1000 5) wireHeap
          = Inr (True, c', packet', h')
        \<and> sliceRead h' (Payload packet') = wirePlain)"
proof -
  have roc: "rolloverCounter (updateRolloverCount rfcSession (SequenceNumber (wirePacket 1000 5))) = 0"
    by (simp add: updateRolloverCount_def Let_def rfcSession_fields)
  have ctr: "generateCounter (rfcSession\<lparr>ssrc := SSRC (wirePacket 1000 5), rolloverCounter := 0\<rparr>)
               (SequenceNumber (wirePacket 1000 5)) = Inr wireCounter"
    by (simp add: wirePacket_fields rfc_generateCounter)
  have cipher: "sliceRead wireHeap (Payload (wirePacket 1000 5))
       = XORKeyStream (rfcSessionSchedule, wireCounter) (wirePlain @ replicate 10 0)"
    unfolding rfc_wireCipher
    by (simp add: sliceRead_def wirePacket_fields wireHeap_def wireCipher_def)
  have ok: "sliceOK wireHeap (Payload (wirePacket 1000 5))"
    by (simp add: sliceOK_def wirePacket_fields wireHeap_def wireCipher_def)
  have "\<exists>c' packet' h'. DecryptPacket rfcSession (wirePacket 1000 5) wireHeap
          = Inr (True, c', packet', h')
        \<and> sliceRead h' (Payload packet') = wirePlain"
    using rfc_NewCipher rfcSession_fields(4) _ roc ctr _ cipher ok
    by (rule DecryptPacket_round_trip) (simp_all add: rfcSession_fields wirePacket_fields)
  then show ?thesis
    using rfc_NewCipher cipher by simp
qed

lemma DecryptPacket_ssrc:
  assumes "DecryptPacket c packet h = Inr (ok, c', packet', h')"
  shows "if ssrc c \<noteq> 0 \<and> ssrc c \<noteq> SSRC packet then \<not> ok \<and> c' = c
         else ok \<and> ssrc c' = SSRC packet"
  using assms
  by (auto simp: DecryptPacket_def Let_def updateRolloverCount_fields
      split: if_splits sum.splits prod.splits)

lemma bound_context_rejects:
  assumes "ssrc c \<noteq> 0" and "SSRC packet \<noteq> ssrc c"
  shows "DecryptPacket c packet h = Inr (False, c, packet, h)"
  using assms by (auto simp: DecryptPacket_def)

lemma bound_run:
  assumes "ssrc c = s" and "s \<noteq> 0" and "decryptAll c calls = (outs, e)"
  shows "(\<forall>i < length outs. ssrc (snd (outs ! i)) = s
           \<and> (SSRC (fst (calls ! i)) \<noteq> s \<longrightarrow> \<not> fst (outs ! i)))
       \<and> (length outs < length calls \<longrightarrow> e \<noteq> None \<and> SSRC (fst (calls ! length outs)) = s)"
  using assms
proof (induction calls arbitrary: c outs e)
  case Nil
  then show ?case by simp
next
  case (Cons call calls)
  obtain packet h where call: "call = (packet, h)"
    by (cases call)
  show ?case
  proof (cases "DecryptPacket c packet h")
    case (Inl err)
    have "SSRC packet = s"
      using Inl bound_context_rejects [of c packet h] Cons.prems(1,2) by auto
    then show ?thesis
      using Cons.prems(3) Inl by (auto simp: call)
  next
    case (Inr r)
    then obtain ok c' packet' h' where r: "DecryptPacket c packet h = Inr (ok, c', packet', h')"
      by (cases r) auto
    obtain outs' e' where rest: "decryptAll c' calls = (outs', e')"
      by (cases "decryptAll c' calls")
    have outs: "outs = (ok, c') # outs'" and e: "e = e'"
      using Cons.prems(3) by (simp_all add: call r rest)
    have step: "ssrc c' = s" "SSRC packet \<noteq> s \<longrightarrow> \<not> ok"
      using DecryptPacket_ssrc [OF r] Cons.prems(1,2) by (auto split: if_splits)
    have ih: "(\<forall>i < length outs'. ssrc (snd (outs' ! i)) = s
           \<and> (SSRC (fst (calls ! i)) \<noteq> s \<longrightarrow> \<not> fst (outs' ! i)))
       \<and> (length outs' < length calls \<longrightarrow> e' \<noteq> None \<and> SSRC (fst (calls ! length outs')) = s)"
      using step(1) Cons.prems(2) rest by (rule Cons.IH)
    show ?thesis
    proof (intro conjI allI impI)
      fix i assume "i < length outs"
      then show "ssrc (snd (outs ! i)) = s"
        and "SSRC (fst ((call # calls) ! i)) \<noteq> s \<Longrightarrow> \<not> fst (outs ! i)"
        using ih step unfolding outs call by (cases i; auto)+
    next
      assume "length outs < length (call # calls)"
      then show "e \<noteq> None" and "SSRC (fst ((call # calls) ! length outs)) = s"
        using ih unfolding outs e by simp_all
    qed
  qed
qed

lemma decryptAll_step:
  assumes "DecryptPacket c packet h = Inr (ok, c', packet', h')"
  shows "fst (decryptAll c ((packet, h) # rest)) = (ok, c') # fst (decryptAll c' rest)"
  using assms by (simp split: prod.splits)

lemma decryptAll_done: "fst (decryptAll c []) = []"
  by simp

lemma wire_accepted:
  assumes "ssrc c = 0 \<or> ssrc c = ident" and "block c = Some xk" and "length (sessionSalt c) \<le> 16"
  shows "\<exists>packet' h'. DecryptPacket c (wirePacket ident seq) wireHeap =
           Inr (True, updateRolloverCount (c\<lparr>ssrc := ident\<rparr>) seq, packet', h')"
  using DecryptPacket_returns [of c "wirePacket ident seq" xk wireHeap] assms
  by (auto simp: wirePacket_fields)

lemma wire_run2:
  assumes "ssrc c = 0" and "block c = Some xk" and "length (sessionSalt c) \<le> 16"
  shows "map (\<lambda>(ok, c'). (ok, ssrc c'))
           (fst (decryptAll c [(wirePacket a s, wireHeap), (wirePacket b t, wireHeap)]))
         = [(True, a), (if a \<noteq> 0 \<and> a \<noteq> b then (False, a) else (True, b))]"
proof -
  let ?c1 = "updateRolloverCount (c\<lparr>ssrc := a\<rparr>) s"
  obtain p1 h1 where one: "DecryptPacket c (wirePacket a s) wireHeap = Inr (True, ?c1, p1, h1)"
    using wire_accepted [of c a xk s] assms by auto
  have c1: "ssrc ?c1 = a" "block ?c1 = Some xk" "length (sessionSalt ?c1) \<le> 16"
    using assms by (simp_all add: updateRolloverCount_fields)
  show ?thesis
  proof (cases "a \<noteq> 0 \<and> a \<noteq> b")
    case True
    then have two: "DecryptPacket ?c1 (wirePacket b t) wireHeap
                    = Inr (False, ?c1, wirePacket b t, wireHeap)"
      using c1(1) by (simp add: DecryptPacket_def wirePacket_fields)
    show ?thesis
      using True c1(1)
      by (simp add: decryptAll_step [OF one] decryptAll_step [OF two] decryptAll_done
            del: decryptAll.simps)
  next
    case False
    let ?c2 = "updateRolloverCount (?c1\<lparr>ssrc := b\<rparr>) t"
    have "ssrc ?c1 = 0 \<or> ssrc ?c1 = b"
      using False c1(1) by auto
    then obtain p2 h2 where two: "DecryptPacket ?c1 (wirePacket b t) wireHeap = Inr (True, ?c2, p2, h2)"
      using wire_accepted [of ?c1 b xk t] c1 by auto
    show ?thesis
      using False c1(1)
      by (simp add: decryptAll_step [OF one] decryptAll_step [OF two] decryptAll_done
            updateRolloverCount_fields del: decryptAll.simps)
  qed
qed

text \<open>C7, as amended: when an unbound context processes a first packet whose stream
  identifier is not zero, then after every call of the run that returns (the first
  included) the context's stream identifier is that of the first packet, and every call
  whose packet carries another identifier returns false. The run ends before its last
  call only by a panic, and only in a call whose packet carries the bound identifier.\<close>

theorem stream_binding_is_permanent:
  assumes fresh: "ssrc c = 0" and first: "SSRC packet \<noteq> 0"
    and run: "decryptAll c ((packet, h) # rest) = (outs, e)"
  shows "(\<forall>i < length outs. ssrc (snd (outs ! i)) = SSRC packet
           \<and> (SSRC (fst (((packet, h) # rest) ! i)) \<noteq> SSRC packet \<longrightarrow> \<not> fst (outs ! i)))
       \<and> (length outs < length ((packet, h) # rest) \<longrightarrow>
            e \<noteq> None \<and> SSRC (fst (((packet, h) # rest) ! length outs)) = SSRC packet)"
proof (cases "DecryptPacket c packet h")
  case (Inl err)
  then have "outs = []" and "e = Some err"
    using run by simp_all
  then show ?thesis by simp
next
  case (Inr r)
  then obtain ok c' packet' h' where r: "DecryptPacket c packet h = Inr (ok, c', packet', h')"
    by (cases r) auto
  obtain outs' e' where rest: "decryptAll c' rest = (outs', e')"
    by (cases "decryptAll c' rest")
  have outs: "outs = (ok, c') # outs'" and e: "e = e'"
    using run by (simp_all add: r rest)
  have bound: "ssrc c' = SSRC packet"
    using DecryptPacket_ssrc [OF r] fresh by simp
  have later: "(\<forall>i < length outs'. ssrc (snd (outs' ! i)) = SSRC packet
           \<and> (SSRC (fst (rest ! i)) \<noteq> SSRC packet \<longrightarrow> \<not> fst (outs' ! i)))
       \<and> (length outs' < length rest \<longrightarrow>
            e' \<noteq> None \<and> SSRC (fst (rest ! length outs')) = SSRC packet)"
    using bound first rest by (rule bound_run)
  show ?thesis
  proof (intro conjI allI impI)
    fix i assume "i < length outs"
    then show "ssrc (snd (outs ! i)) = SSRC packet"
      and "SSRC (fst (((packet, h) # rest) ! i)) \<noteq> SSRC packet \<Longrightarrow> \<not> fst (outs ! i)"
      using later bound unfolding outs by (cases i; auto)+
  next
    assume "length outs < length ((packet, h) # rest)"
    then show "e \<noteq> None" and "SSRC (fst (((packet, h) # rest) ! length outs)) = SSRC packet"
      using later unfolding outs e by simp_all
  qed
qed

text \<open>Witness for C7: after a packet of stream 1000, a packet of stream 2000 is
  rejected and the context is still bound to 1000.\<close>

theorem stream_binding_is_permanent_witness:
  "ssrc rfcSession = 0 \<and> SSRC (wirePacket 1000 5) \<noteq> 0
   \<and> length (fst (decryptAll rfcSession
         [(wirePacket 1000 5, wireHeap), (wirePacket 2000 6, wireHeap)])) = 2
   \<and> ssrc (snd (fst (decryptAll rfcSession
         [(wirePacket 1000 5, wireHeap), (wirePacket 2000 6, wireHeap)]) ! 1)) = 1000
   \<and> \<not> fst (fst (decryptAll rfcSession
         [(wirePacket 1000 5, wireHeap), (wirePacket 2000 6, wireHeap)]) ! 1)"
proof -
  let ?calls = "[(wirePacket 1000 5, wireHeap), (wirePacket 2000 6, wireHeap)]"
  let ?run = "decryptAll rfcSession ?calls"
  have fresh: "ssrc rfcSession = 0"
    by (simp add: rfcSession_fields)
  have first: "SSRC (wirePacket 1000 5) \<noteq> 0"
    by (simp add: wirePacket_fields)
  have "length (sessionSalt rfcSession) \<le> 16"
    by (simp add: rfcSession_fields)
  then have "length (map (\<lambda>(ok, c'). (ok, ssrc c')) (fst ?run)) = 2"
    using wire_run2 [of rfcSession rfcSessionSchedule 1000 5 2000 6]
    by (simp add: rfcSession_fields)
  then have two: "length (fst ?run) = 2"
    by simp
  have run: "decryptAll rfcSession ((wirePacket 1000 5, wireHeap) # [(wirePacket 2000 6, wireHeap)])
             = (fst ?run, snd ?run)"
    by simp
  have "\<forall>i < length (fst ?run). ssrc (snd (fst ?run ! i)) = SSRC (wirePacket 1000 5)
           \<and> (SSRC (fst (?calls ! i)) \<noteq> SSRC (wirePacket 1000 5) \<longrightarrow> \<not> fst (fst ?run ! i))"
    using stream_binding_is_permanent [OF fresh first run] by blast
  then have "ssrc (snd (fst ?run ! 1)) = SSRC (wirePacket 1000 5)
           \<and> (SSRC (fst (?calls ! 1)) \<noteq> SSRC (wirePacket 1000 5) \<longrightarrow> \<not> fst (fst ?run ! 1))"
    using two by simp
  then show ?thesis
    using fresh first two by (simp add: wirePacket_fields)
qed

text \<open>Counterexample to C7 as stated: zero is the value of an unbound context, so a
  first packet with stream identifier 0 binds nothing. The next packet, of stream 7, is
  accepted (the call returns true) and the context's identifier changes from 0 to 7.\<close>

theorem zero_identifier_does_not_bind:
  "map (\<lambda>(ok, c'). (ok, ssrc c'))
     (fst (decryptAll rfcSession [(wirePacket 0 5, wireHeap), (wirePacket 7 6, wireHeap)]))
   = [(True, 0), (True, 7)]"
proof -
  have "length (sessionSalt rfcSession) \<le> 16"
    by (simp add: rfcSession_fields)
  then show ?thesis
    using wire_run2 [of rfcSession rfcSessionSchedule 0 5 7 6]
    by (simp add: rfcSession_fields)
qed

end
